theory Spec2Isabelle
  imports Main "HOL-Library.Multiset"
begin

section \<open>Strings\<close>

text \<open>
  A JavaScript string is a sequence of UTF-16 code units. The model uses \<^typ>\<open>string\<close>,
  whose characters are read as the code units below 256 (ASCII and Latin-1), and gives
  every string operation of the source its meaning on that range.
\<close>

definition isSpace :: "char \<Rightarrow> bool" where
  \<comment> \<open>The characters \<open>\s\<close> and \<open>trim()\<close> treat as white space: tab, line feed, vertical tab,
      form feed, carriage return, space, no-break space.\<close>
  "isSpace c = (c \<in> set [CHR 0x09, CHR 0x0A, CHR 0x0B, CHR 0x0C, CHR 0x0D, CHR '' '', CHR 0xA0])"

definition isWordChar :: "char \<Rightarrow> bool" where
  \<comment> \<open>The class \<open>\w\<close> of a regular expression without the \<open>i\<close> and \<open>u\<close> flags.\<close>
  "isWordChar c = (let n = (of_char c :: nat) in
     (48 \<le> n \<and> n \<le> 57) \<or> (65 \<le> n \<and> n \<le> 90) \<or> n = 95 \<or> (97 \<le> n \<and> n \<le> 122))"

definition toLowerChar :: "char \<Rightarrow> char" where
  "toLowerChar c = (let n = (of_char c :: nat) in
     if (65 \<le> n \<and> n \<le> 90) \<or> (192 \<le> n \<and> n \<le> 222 \<and> n \<noteq> 215)
     then char_of (n + 32) else c)"

definition toUpperChar :: "char \<Rightarrow> char" where
  \<comment> \<open>Used on the first letter of a job-type label only, which is an ASCII letter.\<close>
  "toUpperChar c = (let n = (of_char c :: nat) in
     if 97 \<le> n \<and> n \<le> 122 then char_of (n - 32) else c)"

definition toLowerCase :: "string \<Rightarrow> string" where
  "toLowerCase s = map toLowerChar s"

definition trim :: "string \<Rightarrow> string" where
  "trim s = rev (dropWhile isSpace (rev (dropWhile isSpace s)))"

definition startsWith :: "string \<Rightarrow> string \<Rightarrow> bool" where
  \<comment> \<open>\<open>startsWith w s\<close>: the string \<open>s\<close> begins with \<open>w\<close>.\<close>
  "startsWith w s = (take (length w) s = w)"

fun includesStr :: "string \<Rightarrow> string \<Rightarrow> bool" where
  \<comment> \<open>\<open>s.includes(sub)\<close>: search for \<open>sub\<close> at every position of \<open>s\<close>.\<close>
  "includesStr [] sub = (sub = [])"
| "includesStr (c # cs) sub = (startsWith sub (c # cs) \<or> includesStr cs sub)"

fun splitOn :: "char \<Rightarrow> string \<Rightarrow> string \<Rightarrow> string list" where
  \<comment> \<open>\<open>s.split(sep)\<close> for a one-character separator; the second argument is the word
      read so far, reversed.\<close>
  "splitOn sep acc [] = [rev acc]"
| "splitOn sep acc (c # cs) =
     (if c = sep then rev acc # splitOn sep [] cs else splitOn sep (c # acc) cs)"

definition split :: "string \<Rightarrow> string list" where
  \<comment> \<open>\<open>name.split(' ')\<close>.\<close>
  "split s = splitOn (CHR '' '') [] s"

fun join :: "string list \<Rightarrow> string" where
  \<comment> \<open>\<open>xs.join(' ')\<close>.\<close>
  "join [] = []"
| "join [x] = x"
| "join (x # y # ys) = x @ CHR '' '' # join (y # ys)"

section \<open>Cleaning company names\<close>

definition suffixVocabulary :: "(string \<times> bool) list" where
  \<comment> \<open>The alternatives of the regular expression of \<open>cleanCompanyName\<close>, in its order;
      the flag says that the alternative ends in an optional period (\<open>\.?\<close>).\<close>
  "suffixVocabulary =
     [(''inc'', True), (''llc'', True), (''corp'', True), (''corporation'', False),
      (''company'', False), (''co'', True), (''ltd'', True), (''limited'', False),
      (''services'', False), (''group'', False), (''technologies'', False),
      (''tech'', False), (''systems'', False), (''solutions'', False)]"

definition wordBoundary :: "char option \<Rightarrow> char option \<Rightarrow> bool" where
  \<comment> \<open>\<open>\b\<close> between the character before a position and the character at it;
      \<open>None\<close> is an end of the input.\<close>
  "wordBoundary p n =
     ((case p of None \<Rightarrow> False | Some c \<Rightarrow> isWordChar c) \<noteq>
      (case n of None \<Rightarrow> False | Some c \<Rightarrow> isWordChar c))"

definition headOpt :: "string \<Rightarrow> char option" where
  "headOpt s = (case s of [] \<Rightarrow> None | c # _ \<Rightarrow> Some c)"

definition matchAlternative :: "string \<Rightarrow> string \<times> bool \<Rightarrow> nat option" where
  \<comment> \<open>One alternative followed by the closing \<open>\b\<close>, at the start of \<open>s\<close>: the greedy
      \<open>\.?\<close> takes the period first and gives it back when the boundary fails there.
      The result is the length of the match.\<close>
  "matchAlternative s alt =
     (case alt of (w, dot) \<Rightarrow>
        if startsWith w s then
          (let r = drop (length w) s in
           if dot \<and> headOpt r = Some (CHR ''.'') \<and> wordBoundary (Some (CHR ''.'')) (headOpt (tl r))
           then Some (length w + 1)
           else if wordBoundary (Some (last w)) (headOpt r) then Some (length w)
           else None)
        else None)"

fun firstMatch :: "string \<Rightarrow> (string \<times> bool) list \<Rightarrow> nat option" where
  "firstMatch s [] = None"
| "firstMatch s (alt # alts) =
     (case matchAlternative s alt of Some n \<Rightarrow> Some n | None \<Rightarrow> firstMatch s alts)"

definition matchSuffixAt :: "char option \<Rightarrow> string \<Rightarrow> nat option" where
  \<comment> \<open>The whole expression at one position: the opening \<open>\b\<close>, then the alternatives
      in order.\<close>
  "matchSuffixAt prev s =
     (if wordBoundary prev (headOpt s) then firstMatch s suffixVocabulary else None)"

fun removeSuffixes :: "nat \<Rightarrow> char option \<Rightarrow> string \<Rightarrow> string" where
  \<comment> \<open>\<open>.replace(/\b(...)\b/g, '')\<close>: a left-to-right scan. The first argument counts
      the characters of the current match that are still to be skipped.\<close>
  "removeSuffixes k prev [] = []"
| "removeSuffixes (Suc k) prev (c # cs) = removeSuffixes k (Some c) cs"
| "removeSuffixes 0 prev (c # cs) =
     (case matchSuffixAt prev (c # cs) of
        Some n \<Rightarrow> removeSuffixes (n - 1) (Some c) cs
      | None \<Rightarrow> c # removeSuffixes 0 (Some c) cs)"

definition removePunctuation :: "string \<Rightarrow> string" where
  \<comment> \<open>\<open>.replace(/[,\.]/g, '')\<close>.\<close>
  "removePunctuation s = filter (\<lambda>c. c \<noteq> CHR '','' \<and> c \<noteq> CHR ''.'') s"

fun collapseSpaces :: "bool \<Rightarrow> string \<Rightarrow> string" where
  \<comment> \<open>\<open>.replace(/\s+/g, ' ')\<close>; the flag says that the scan is inside a run of white
      space, whose space has been written already.\<close>
  "collapseSpaces inRun [] = []"
| "collapseSpaces inRun (c # cs) =
     (if isSpace c then (if inRun then collapseSpaces True cs
                         else CHR '' '' # collapseSpaces True cs)
      else c # collapseSpaces False cs)"

definition cleanCompanyName :: "string \<Rightarrow> string" where
  "cleanCompanyName name =
     trim (collapseSpaces False (removePunctuation (removeSuffixes 0 None name)))"

definition isSubstantialMatch :: "string \<Rightarrow> string \<Rightarrow> bool" where
  \<comment> \<open>The source compares the quotient of two lengths with 0.6 in floating point; for
      lengths of strings that is the comparison of integers below.\<close>
  "isSubstantialMatch name1 name2 =
     (let words1 = filter (\<lambda>w. length w > 2) (split name1);
          words2 = filter (\<lambda>w. length w > 2) (split name2)
      in if length words1 = 0 \<or> length words2 = 0 then False
         else (let commonWords = filter (\<lambda>w. w \<in> set words2) words1
               in 3 * min (length words1) (length words2) \<le> 5 * length commonWords))"

definition matchesEntry :: "string \<Rightarrow> string \<Rightarrow> bool" where
  \<comment> \<open>The body of the loop of \<open>isH1BCompany\<close> for one entry of the set.\<close>
  "matchesEntry normalizedName h1bCompany =
     (let cleanJobCompany = cleanCompanyName normalizedName;
          cleanH1bCompany = cleanCompanyName h1bCompany
      in cleanJobCompany = cleanH1bCompany \<or>
         includesStr cleanJobCompany cleanH1bCompany \<or>
         includesStr cleanH1bCompany cleanJobCompany \<or>
         isSubstantialMatch cleanJobCompany cleanH1bCompany)"

fun anyEntry :: "string \<Rightarrow> string list \<Rightarrow> bool" where
  "anyEntry normalizedName [] = False"
| "anyEntry normalizedName (h # hs) =
     (if matchesEntry normalizedName h then True else anyEntry normalizedName hs)"

definition isH1BCompany :: "string list \<Rightarrow> string option \<Rightarrow> bool" where
  \<comment> \<open>The set of companies is the list of its members in iteration order; an absent
      name (\<open>undefined\<close>) is \<open>None\<close>.\<close>
  "isH1BCompany h1bCompanies companyName =
     (case companyName of
        None \<Rightarrow> False
      | Some name \<Rightarrow>
          if name = [] then False
          else (let normalizedName = trim (toLowerCase name)
                in if normalizedName \<in> set h1bCompanies then True
                   else anyEntry normalizedName h1bCompanies))"

section \<open>Building a job record\<close>

record detected_ext =
  posted_at :: "string option"
  schedule_type :: "string option"

record apply_option =
  title :: string
  link :: string

text \<open>One item of \<open>jobs_results\<close>; a field the response leaves out is \<open>None\<close>.\<close>

record raw_job =
  raw_company_name :: "string option"
  raw_title :: "string option"
  raw_location :: "string option"
  raw_description :: "string option"
  raw_detected_extensions :: "detected_ext option"
  raw_extensions :: "string list option"
  raw_apply_options :: "apply_option list option"

record job =
  company_name :: string
  job_title :: string
  posting_time :: string
  job_location :: string
  job_type :: string
  job_description :: string
  work_setting :: string
  ats_apply_link :: string
  scraped_at :: string

definition orElse :: "string option \<Rightarrow> string \<Rightarrow> string" where
  \<comment> \<open>\<open>a || b\<close> for a string \<open>a\<close> that may be absent: absent and empty are falsy.\<close>
  "orElse a b = (case a of None \<Rightarrow> b | Some s \<Rightarrow> if s = [] then b else s)"

definition workSettingText :: "string option \<Rightarrow> string list option \<Rightarrow> string" where
  \<comment> \<open>\<open>(description + ' ' + (extensions || []).join(' ')).toLowerCase()\<close>; an absent
      description is concatenated as the word \<open>undefined\<close>.\<close>
  "workSettingText description extensions =
     toLowerCase ((case description of None \<Rightarrow> ''undefined'' | Some d \<Rightarrow> d) @ '' '' @
                  join (case extensions of None \<Rightarrow> [] | Some es \<Rightarrow> es))"

definition extractWorkSetting :: "string option \<Rightarrow> string list option \<Rightarrow> string" where
  "extractWorkSetting description extensions =
     (let text = workSettingText description extensions
      in if includesStr text ''remote'' \<and> (includesStr text ''onsite'' \<or> includesStr text ''office'')
         then ''Hybrid''
         else if includesStr text ''remote'' then ''Remote''
         else if includesStr text ''onsite'' \<or> includesStr text ''office'' \<or>
                 includesStr text ''on-site''
         then ''Onsite''
         else ''Not Specified'')"

definition jobTypes :: "string list" where
  "jobTypes = [''full-time'', ''part-time'', ''contract'', ''internship'', ''temporary'']"

definition capitalize :: "string \<Rightarrow> string" where
  \<comment> \<open>\<open>type.charAt(0).toUpperCase() + type.slice(1)\<close>.\<close>
  "capitalize s = (case s of [] \<Rightarrow> [] | c # cs \<Rightarrow> toUpperChar c # cs)"

fun extractJobTypeLoop :: "string list \<Rightarrow> string" where
  "extractJobTypeLoop [] = []"
| "extractJobTypeLoop (ext # exts) =
     (case find (\<lambda>t. includesStr (toLowerCase ext) t) jobTypes of
        Some t \<Rightarrow> capitalize t
      | None \<Rightarrow> extractJobTypeLoop exts)"

definition extractJobType :: "string list option \<Rightarrow> string" where
  "extractJobType extensions =
     (case extensions of None \<Rightarrow> [] | Some exts \<Rightarrow> extractJobTypeLoop exts)"

definition priorities :: "string list" where
  "priorities = [''career'', ''jobs'', ''workday'', ''greenhouse'', ''lever'', ''bamboohr'']"

fun findByPriority :: "string list \<Rightarrow> apply_option list \<Rightarrow> apply_option option" where
  "findByPriority [] applyOptions = None"
| "findByPriority (priority # ps) applyOptions =
     (case find (\<lambda>option. includesStr (toLowerCase (title option)) priority \<or>
                           includesStr (toLowerCase (link option)) priority) applyOptions of
        Some found \<Rightarrow> Some found
      | None \<Rightarrow> findByPriority ps applyOptions)"

definition getATSApplyLink :: "apply_option list option \<Rightarrow> string" where
  "getATSApplyLink applyOptions =
     (case applyOptions of
        None \<Rightarrow> []
      | Some [] \<Rightarrow> []
      | Some (first # others) \<Rightarrow>
          (case findByPriority priorities (first # others) of
             Some found \<Rightarrow> link found
           | None \<Rightarrow> link first))"

definition buildJob :: "string \<Rightarrow> raw_job \<Rightarrow> job" where
  \<comment> \<open>The object literal \<open>processedJob\<close>; the first argument is the reading of the clock.\<close>
  "buildJob now j =
     \<lparr> company_name = orElse (raw_company_name j) [],
       job_title = orElse (raw_title j) [],
       posting_time =
         orElse (case raw_detected_extensions j of None \<Rightarrow> None | Some d \<Rightarrow> posted_at d)
           (orElse (case raw_extensions j of None \<Rightarrow> None | Some [] \<Rightarrow> None
                    | Some (e # _) \<Rightarrow> Some e) []),
       job_location = orElse (raw_location j) [],
       job_type =
         orElse (case raw_detected_extensions j of None \<Rightarrow> None | Some d \<Rightarrow> schedule_type d)
           (orElse (Some (extractJobType (raw_extensions j))) []),
       job_description = orElse (raw_description j) [],
       work_setting = extractWorkSetting (raw_description j) (raw_extensions j),
       ats_apply_link = getATSApplyLink (raw_apply_options j),
       scraped_at = now \<rparr>"

section \<open>State of a run and its surroundings\<close>

datatype error = Error (message: string)

record run_stats =
  jobsScraped :: nat
  jobsFiltered :: nat
  jobsInserted :: nat
  jobsDuplicated :: nat
  apiCallsMade :: nat
  status :: string
  errorMessage :: "string option"

record log_row =
  jobs_scraped :: nat
  jobs_filtered :: nat
  jobs_inserted :: nat
  jobs_duplicated :: nat
  log_status :: string
  error_message :: "string option"
  api_calls_made :: nat

record response =
  jobs_results :: "raw_job list option"

text \<open>
  The scraper object: the set of companies, in iteration order, and the statistics of
  the current run.
\<close>

record scraper =
  h1bCompanies :: "string list"
  stats :: run_stats

text \<open>
  The database, with its three tables, and what the run has done to the outside:
  the start indices of the calls to the search service, in order, and the number of
  calls to \<open>logScrapingRun\<close>. A row of \<open>jobs\<close> is its hash and the record; a row of
  \<open>h1b_companies\<close> is the name and the normalized name.
\<close>

record world =
  jobs_table :: "(string \<times> job) list"
  companies_table :: "(string \<times> string) list"
  logs_table :: "log_row list"
  fetchCalls :: "nat list"
  logAttempts :: nat

text \<open>
  What the surroundings answer: whether the database opens, whether the query of the
  companies succeeds, the rows of the file of companies (a row lists its columns in
  order, header and value, the headers distinct) or the error of its stream, the outcome of each commit, the
  response of the search service to the call with a given start index, the outcome of
  the insertion of the n-th row of a batch of jobs and of a batch of companies (counted
  from 0; the handler of a row gets an error or the number of changes), the outcome of
  writing the file of results, the outcome of the n-th call of \<open>logScrapingRun\<close>
  (counted from 0), and the clock (indexed by the number of records built so far).
\<close>

record env =
  dbOpen :: "error option"
  dbQuery :: "error option"
  csvRows :: "error + (string \<times> string) list list"
  companyRowError :: "nat \<Rightarrow> error option"
  companiesCommit :: "error option"
  fetchPage :: "nat \<Rightarrow> error + response"
  jobRowError :: "nat \<Rightarrow> error option"
  jobsCommit :: "error option"
  csvWrite :: "error option"
  logWrite :: "nat \<Rightarrow> error option"
  clock :: "nat \<Rightarrow> string"

definition initialStats :: run_stats where
  "initialStats =
     \<lparr> jobsScraped = 0, jobsFiltered = 0, jobsInserted = 0, jobsDuplicated = 0,
       apiCallsMade = 0, status = ''success'', errorMessage = None \<rparr>"

definition markError :: "error \<Rightarrow> scraper \<Rightarrow> scraper" where
  \<comment> \<open>\<open>this.stats.status = 'error'; this.stats.errorMessage = error.message\<close>.\<close>
  "markError e sc =
     sc\<lparr>stats := (stats sc)\<lparr>status := ''error'', errorMessage := Some (message e)\<rparr>\<rparr>"

section \<open>Fetching and filtering\<close>

definition fetchJobs :: "env \<Rightarrow> scraper \<Rightarrow> world \<Rightarrow> nat \<Rightarrow> (error + response) \<times> scraper \<times> world" where
  \<comment> \<open>The counter is incremented after the request has returned; a request that fails
      goes to the handler, which marks the statistics and throws the error again. The
      request does not carry the start index: the surroundings answer call by call, and
      the calls of a run have start indices of their own.\<close>
  "fetchJobs e sc w startIndex =
     (let w' = w\<lparr>fetchCalls := fetchCalls w @ [startIndex]\<rparr>
      in case fetchPage e startIndex of
           Inr data \<Rightarrow>
             (Inr data, sc\<lparr>stats := (stats sc)\<lparr>apiCallsMade := apiCallsMade (stats sc) + 1\<rparr>\<rparr>, w')
         | Inl err \<Rightarrow> (Inl err, markError err sc, w'))"

fun filterPage :: "env \<Rightarrow> raw_job list \<Rightarrow> scraper \<Rightarrow> job list \<Rightarrow> scraper \<times> job list" where
  \<comment> \<open>The inner loop of \<open>processJobs\<close> over the items of one page.\<close>
  "filterPage e [] sc allJobs = (sc, allJobs)"
| "filterPage e (j # js) sc allJobs =
     (if \<not> isH1BCompany (h1bCompanies sc) (raw_company_name j) then filterPage e js sc allJobs
      else filterPage e js
             (sc\<lparr>stats := (stats sc)\<lparr>jobsFiltered := jobsFiltered (stats sc) + 1\<rparr>\<rparr>)
             (allJobs @ [buildJob (clock e (length allJobs)) j]))"

fun fetchPages :: "env \<Rightarrow> nat \<Rightarrow> nat \<Rightarrow> scraper \<Rightarrow> world \<Rightarrow> job list \<Rightarrow>
    (error + job list) \<times> scraper \<times> world" where
  \<comment> \<open>The outer loop of \<open>processJobs\<close>; the second argument is the number of pages left,
      the third the start index.\<close>
  "fetchPages e 0 startIndex sc w allJobs = (Inr allJobs, sc, w)"
| "fetchPages e (Suc n) startIndex sc w allJobs =
     (case fetchJobs e sc w startIndex of
        (Inl err, sc', w') \<Rightarrow> (Inl err, sc', w')
      | (Inr data, sc', w') \<Rightarrow>
          (case jobs_results data of
             None \<Rightarrow> (Inr allJobs, sc', w')
           | Some [] \<Rightarrow> (Inr allJobs, sc', w')
           | Some (j # js) \<Rightarrow>
               (let sc'' = sc'\<lparr>stats := (stats sc')
                              \<lparr>jobsScraped := jobsScraped (stats sc') + length (j # js)\<rparr>\<rparr>
                in case filterPage e (j # js) sc'' allJobs of
                     (sc3, allJobs') \<Rightarrow> fetchPages e n (startIndex + 10) sc3 w' allJobs')))"

definition maxPages :: nat where
  "maxPages = 3"

definition processJobs :: "env \<Rightarrow> scraper \<Rightarrow> world \<Rightarrow> (error + job list) \<times> scraper \<times> world" where
  "processJobs e sc w =
     (case fetchPages e maxPages 0 sc w [] of
        (Inl err, sc', w') \<Rightarrow> (Inl err, markError err sc', w')
      | (Inr allJobs, sc', w') \<Rightarrow> (Inr allJobs, sc', w'))"

section \<open>The database\<close>

definition hashString :: "job \<Rightarrow> string" where
  "hashString j =
     company_name j @ ''-'' @ job_title j @ ''-'' @ job_location j @ ''-'' @ posting_time j"

definition generateJobHash :: "(string \<Rightarrow> string) \<Rightarrow> job \<Rightarrow> string" where
  \<comment> \<open>The first argument is the digest of the library, \<open>md5\<close> in hexadecimal.\<close>
  "generateJobHash md5 j = md5 (hashString j)"

fun insertRows :: "(nat \<Rightarrow> error option) \<Rightarrow> (string \<Rightarrow> string) \<Rightarrow> nat \<Rightarrow> job list \<Rightarrow>
    (string \<times> job) list \<Rightarrow> nat \<Rightarrow> nat \<Rightarrow> (string \<times> job) list \<times> nat \<times> nat" where
  \<comment> \<open>The loop of \<open>insertJobs\<close> with the handler of each row; the third argument is
      the number of the row. A row whose insertion fails is reported and moves neither
      counter. Otherwise \<open>INSERT OR IGNORE\<close> on a table whose \<open>job_hash\<close> is unique changes
      the table exactly when the hash is new.\<close>
  "insertRows rowError md5 n [] tbl inserted duplicated = (tbl, inserted, duplicated)"
| "insertRows rowError md5 n (j # js) tbl inserted duplicated =
     (case rowError n of
        Some err \<Rightarrow> insertRows rowError md5 (n + 1) js tbl inserted duplicated
      | None \<Rightarrow>
          (let jobHash = generateJobHash md5 j
           in if jobHash \<in> set (map fst tbl)
              then insertRows rowError md5 (n + 1) js tbl inserted (duplicated + 1)
              else insertRows rowError md5 (n + 1) js (tbl @ [(jobHash, j)])
                     (inserted + 1) duplicated))"

definition insertJobs :: "env \<Rightarrow> (string \<Rightarrow> string) \<Rightarrow> world \<Rightarrow> job list \<Rightarrow>
    (error + nat \<times> nat) \<times> world" where
  \<comment> \<open>The result is the pair of \<open>inserted\<close> and \<open>duplicated\<close>. A transaction whose
      commit fails leaves the table as it was.\<close>
  "insertJobs e md5 w jobs =
     (if jobs = [] then (Inr (0, 0), w)
      else (case insertRows (jobRowError e) md5 0 jobs (jobs_table w) 0 0 of
              (tbl, inserted, duplicated) \<Rightarrow>
                (case jobsCommit e of
                   Some err \<Rightarrow> (Inl err, w)
                 | None \<Rightarrow> (Inr (inserted, duplicated), w\<lparr>jobs_table := tbl\<rparr>))))"

fun insertCompanyRows :: "(nat \<Rightarrow> error option) \<Rightarrow> nat \<Rightarrow> string list \<Rightarrow>
    (string \<times> string) list \<Rightarrow> nat \<Rightarrow> (string \<times> string) list \<times> nat" where
  \<comment> \<open>The loop of \<open>insertH1BCompanies\<close>; \<open>company_name\<close> is unique.\<close>
  "insertCompanyRows rowError n [] tbl inserted = (tbl, inserted)"
| "insertCompanyRows rowError n (company # cs) tbl inserted =
     (let normalized = trim (toLowerCase company)
      in case rowError n of
           Some err \<Rightarrow> insertCompanyRows rowError (n + 1) cs tbl inserted
         | None \<Rightarrow>
             if company \<in> set (map fst tbl) then insertCompanyRows rowError (n + 1) cs tbl inserted
             else insertCompanyRows rowError (n + 1) cs (tbl @ [(company, normalized)])
                    (inserted + 1))"

definition insertH1BCompanies :: "env \<Rightarrow> world \<Rightarrow> string list \<Rightarrow> (error + nat) \<times> world" where
  "insertH1BCompanies e w companies =
     (case insertCompanyRows (companyRowError e) 0 companies (companies_table w) 0 of
        (tbl, inserted) \<Rightarrow>
          (case companiesCommit e of
             Some err \<Rightarrow> (Inl err, w)
           | None \<Rightarrow> (Inr inserted, w\<lparr>companies_table := tbl\<rparr>)))"

definition newSet :: "string list \<Rightarrow> string list" where
  \<comment> \<open>\<open>new Set(xs)\<close>, as the list of its members in order of first insertion.\<close>
  "newSet xs = rev (remdups (rev xs))"

definition getH1BCompanies :: "env \<Rightarrow> world \<Rightarrow> error + string list" where
  "getH1BCompanies e w =
     (case dbQuery e of
        Some err \<Rightarrow> Inl err
      | None \<Rightarrow> Inr (newSet (map snd (companies_table w))))"

definition logRow :: "run_stats \<Rightarrow> log_row" where
  \<comment> \<open>The parameters of the insertion, with their defaults (\<open>stats.status || 'success'\<close>,
      \<open>stats.errorMessage || null\<close>).\<close>
  "logRow s =
     \<lparr> jobs_scraped = jobsScraped s, jobs_filtered = jobsFiltered s,
       jobs_inserted = jobsInserted s, jobs_duplicated = jobsDuplicated s,
       log_status = (if status s = [] then ''success'' else status s),
       error_message = (case errorMessage s of None \<Rightarrow> None
                        | Some m \<Rightarrow> if m = [] then None else Some m),
       api_calls_made = apiCallsMade s \<rparr>"

definition logScrapingRun :: "env \<Rightarrow> run_stats \<Rightarrow> world \<Rightarrow> (error + nat) \<times> world" where
  \<comment> \<open>On success the result is the identifier of the new row.\<close>
  "logScrapingRun e s w =
     (let w' = w\<lparr>logAttempts := logAttempts w + 1\<rparr>
      in case logWrite e (logAttempts w) of
           Some err \<Rightarrow> (Inl err, w')
         | None \<Rightarrow> (Inr (length (logs_table w) + 1), w'\<lparr>logs_table := logs_table w @ [logRow s]\<rparr>))"

section \<open>Saving and the whole run\<close>

definition saveJobs :: "env \<Rightarrow> (string \<Rightarrow> string) \<Rightarrow> scraper \<Rightarrow> world \<Rightarrow> job list \<Rightarrow>
    (error + unit) \<times> scraper \<times> world" where
  "saveJobs e md5 sc w jobs =
     (if jobs = [] then (Inr (), sc, w)
      else (case insertJobs e md5 w jobs of
              (Inl err, w') \<Rightarrow> (Inl err, markError err sc, w')
            | (Inr (inserted, duplicated), w') \<Rightarrow>
                (let sc' = sc\<lparr>stats := (stats sc)\<lparr>jobsInserted := inserted,
                                                   jobsDuplicated := duplicated\<rparr>\<rparr>
                 in case csvWrite e of
                      Some err \<Rightarrow> (Inl err, markError err sc', w')
                    | None \<Rightarrow> (Inr (), sc', w'))))"

definition failRun :: "env \<Rightarrow> error \<Rightarrow> scraper \<Rightarrow> world \<Rightarrow> (error + job list) \<times> scraper \<times> world" where
  \<comment> \<open>The handler of \<open>scrapeJobs\<close>: mark the statistics, write the log, throw the error
      again. The write of the log is awaited before the \<open>throw\<close>, so its own error leaves
      the handler in place of the first one.\<close>
  "failRun e err sc w =
     (let sc' = markError err sc
      in case logScrapingRun e (stats sc') w of
           (Inl logErr, w') \<Rightarrow> (Inl logErr, sc', w')
         | (Inr _, w') \<Rightarrow> (Inl err, sc', w'))"

definition tryRun :: "env \<Rightarrow> (string \<Rightarrow> string) \<Rightarrow> scraper \<Rightarrow> world \<Rightarrow>
    (error + job list) \<times> scraper \<times> world" where
  \<comment> \<open>The \<open>try\<close> block of \<open>scrapeJobs\<close>: reset the statistics, fetch and filter, save,
      write the log.\<close>
  "tryRun e md5 sc w =
     (let sc0 = sc\<lparr>stats := initialStats\<rparr>
      in case processJobs e sc0 w of
           (Inl err, sc1, w1) \<Rightarrow> (Inl err, sc1, w1)
         | (Inr jobs, sc1, w1) \<Rightarrow>
             (case saveJobs e md5 sc1 w1 jobs of
                (Inl err, sc2, w2) \<Rightarrow> (Inl err, sc2, w2)
              | (Inr _, sc2, w2) \<Rightarrow>
                  (case logScrapingRun e (stats sc2) w2 of
                     (Inl err, w3) \<Rightarrow> (Inl err, sc2, w3)
                   | (Inr _, w3) \<Rightarrow> (Inr jobs, sc2, w3))))"

definition scrapeJobs :: "env \<Rightarrow> (string \<Rightarrow> string) \<Rightarrow> scraper \<Rightarrow> world \<Rightarrow>
    (error + job list) \<times> scraper \<times> world" where
  "scrapeJobs e md5 sc w =
     (case tryRun e md5 sc w of
        (Inl err, sc1, w1) \<Rightarrow> failRun e err sc1 w1
      | (Inr jobs, sc1, w1) \<Rightarrow> (Inr jobs, sc1, w1))"

section \<open>Loading the companies\<close>

definition isQuote :: "char \<Rightarrow> bool" where
  "isQuote c = (c = CHR 0x22 \<or> c = CHR 0x27)"

definition stripQuotes :: "string \<Rightarrow> string" where
  \<comment> \<open>\<open>.replace(/^["']|["']$/g, '')\<close>: one quote at the start, one at the end.\<close>
  "stripQuotes s =
     (let s1 = (case s of [] \<Rightarrow> [] | c # cs \<Rightarrow> if isQuote c then cs else c # cs)
      in if s1 \<noteq> [] \<and> isQuote (last s1) then butlast s1 else s1)"

definition rowCompanyName :: "(string \<times> string) list \<Rightarrow> string option" where
  \<comment> \<open>The chain of \<open>||\<close> over the columns of a row: the first value that is present and
      not empty; the last operand is the value of the first column.\<close>
  "rowCompanyName row =
     (case filter (\<lambda>v. v \<noteq> None \<and> v \<noteq> Some [])
             (map (map_of row) [''EMPLOYER_NAME'', ''employer_name'', ''company_name'',
                                ''Company Name'', ''name'']
              @ [case row of [] \<Rightarrow> None | (_, v) # _ \<Rightarrow> Some v]) of
        [] \<Rightarrow> None
      | v # _ \<Rightarrow> v)"

fun readRows :: "(string \<times> string) list list \<Rightarrow> string list \<Rightarrow> string list" where
  \<comment> \<open>The handler of the rows of the file, with the array \<open>companies\<close>.\<close>
  "readRows [] companies = companies"
| "readRows (row # rows) companies =
     (case rowCompanyName row of
        None \<Rightarrow> readRows rows companies
      | Some companyName \<Rightarrow>
          (let name = trim (stripQuotes companyName)
           in if name = [] then readRows rows companies
              else readRows rows (companies @ [toLowerCase name])))"

definition loadH1BCompanies :: "env \<Rightarrow> scraper \<Rightarrow> world \<Rightarrow> error + scraper" where
  "loadH1BCompanies e sc w =
     (case getH1BCompanies e w of
        Inl err \<Rightarrow> Inl err
      | Inr dbCompanies \<Rightarrow>
          if length dbCompanies > 0 then Inr (sc\<lparr>h1bCompanies := dbCompanies\<rparr>)
          else (case csvRows e of
                  Inl err \<Rightarrow> Inl err
                | Inr rows \<Rightarrow> Inr (sc\<lparr>h1bCompanies := newSet (readRows rows [])\<rparr>)))"

definition initialize :: "env \<Rightarrow> scraper \<Rightarrow> world \<Rightarrow> error + scraper \<times> world" where
  "initialize e sc w =
     (case dbOpen e of
        Some err \<Rightarrow> Inl err
      | None \<Rightarrow>
          (case loadH1BCompanies e sc w of
             Inl err \<Rightarrow> Inl err
           | Inr sc' \<Rightarrow>
               if length (h1bCompanies sc') > 0
               then (case insertH1BCompanies e w (h1bCompanies sc') of
                       (Inl err, w') \<Rightarrow> Inl err
                     | (Inr _, w') \<Rightarrow> Inr (sc', w'))
               else Inr (sc', w)))"

definition newScraper :: scraper where
  \<comment> \<open>The constructor.\<close>
  "newScraper = \<lparr> h1bCompanies = [], stats = initialStats \<rparr>"

definition main :: "env \<Rightarrow> (string \<Rightarrow> string) \<Rightarrow> world \<Rightarrow>
    error + (error + job list) \<times> scraper \<times> world" where
  \<comment> \<open>\<open>main\<close> up to the end of the first run: an error of the initialization ends the
      process; otherwise the result is that of the run started at once.\<close>
  "main e md5 w =
     (case initialize e newScraper w of
        Inl err \<Rightarrow> Inl err
      | Inr (sc, w') \<Rightarrow> Inr (scrapeJobs e md5 sc w'))"

section \<open>The work setting, as the specification words it\<close>

definition containsText :: "string \<Rightarrow> string \<Rightarrow> bool" where
  \<comment> \<open>The text contains the keyword: the keyword occurs somewhere in it.\<close>
  "containsText text keyword = (\<exists>u v. text = u @ keyword @ v)"

definition asciiLower :: "char \<Rightarrow> char" where
  \<comment> \<open>Lower-casing of the letters A to Z; every other character stays.\<close>
  "asciiLower c =
     (case map_of (zip ''ABCDEFGHIJKLMNOPQRSTUVWXYZ'' ''abcdefghijklmnopqrstuvwxyz'') c of
        None \<Rightarrow> c | Some l \<Rightarrow> l)"

definition spaced :: "string list \<Rightarrow> string" where
  \<comment> \<open>The strings of a list one after the other, with one space between neighbours.\<close>
  "spaced ws = (case ws of [] \<Rightarrow> [] | w # r \<Rightarrow> w @ concat (map (\<lambda>x. CHR '' '' # x) r))"

definition specText :: "string \<Rightarrow> string list option \<Rightarrow> string" where
  \<comment> \<open>The text blob: the description, a space, the extensions with a space between
      them (nothing when the list is absent), all of it lower-cased.\<close>
  "specText description extensions =
     map asciiLower
       (description @ '' '' @ spaced (case extensions of None \<Rightarrow> [] | Some es \<Rightarrow> es))"

definition specWorkSetting :: "string \<Rightarrow> string" where
  \<comment> \<open>The decision of the specification on the lower-cased text.\<close>
  "specWorkSetting text =
     (if containsText text ''remote'' \<and>
         (containsText text ''onsite'' \<or> containsText text ''office'')
      then ''Hybrid''
      else if containsText text ''remote'' then ''Remote''
      else if containsText text ''onsite'' \<or> containsText text ''office'' \<or>
              containsText text ''on-site''
      then ''Onsite''
      else ''Not Specified'')"

section \<open>The cleaning of a name, in terms of words\<close>

text \<open>
  A description of the cleaning that does not scan with a pattern. A name is cut into
  its runs of word characters and the characters between them; a run that is a word of
  the vocabulary is dropped; commas and periods are deleted; what is left is cut at
  white space into words, and the words are put together with one space between them.
\<close>

definition specVocabulary :: "string list" where
  "specVocabulary =
     [''inc'', ''llc'', ''corp'', ''corporation'', ''company'', ''co'', ''ltd'', ''limited'',
      ''services'', ''group'', ''technologies'', ''tech'', ''systems'', ''solutions'']"

function dropVocabulary :: "string \<Rightarrow> string" where
  \<comment> \<open>At a word character a maximal run of word characters starts; it is dropped when
      it is a word of the vocabulary.\<close>
  "dropVocabulary [] = []"
| "dropVocabulary (c # cs) =
     (if isWordChar c
      then (let w = c # takeWhile isWordChar cs
            in (if w \<in> set specVocabulary then [] else w) @
               dropVocabulary (dropWhile isWordChar cs))
      else c # dropVocabulary cs)"
  by pat_completeness auto
termination
  by (relation "measure length") (auto simp: less_Suc_eq_le length_dropWhile_le)

fun splitSpaces :: "string \<Rightarrow> string list" where
  \<comment> \<open>The pieces between the white-space characters of a string.\<close>
  "splitSpaces [] = [[]]"
| "splitSpaces (c # cs) =
     (if isSpace c then [] # splitSpaces cs
      else (case splitSpaces cs of [] \<Rightarrow> [[c]] | w # ws \<Rightarrow> (c # w) # ws))"

definition wordsOf :: "string \<Rightarrow> string list" where
  \<comment> \<open>The words of a string: its pieces that are not empty.\<close>
  "wordsOf s = filter (\<lambda>w. w \<noteq> []) (splitSpaces s)"

definition specClean :: "string \<Rightarrow> string" where
  "specClean name =
     spaced (wordsOf (filter (\<lambda>c. c \<noteq> CHR '','' \<and> c \<noteq> CHR ''.'') (dropVocabulary name)))"

section \<open>Auxiliary notions of the proofs\<close>

definition rtrim :: "string \<Rightarrow> string" where
  \<comment> \<open>The string without the white space at its end.\<close>
  "rtrim s = rev (dropWhile isSpace (rev s))"

definition startsFresh :: "char option \<Rightarrow> string \<Rightarrow> bool" where
  \<comment> \<open>The scan of \<open>removeSuffixes\<close> is not in the middle of a run of word characters.\<close>
  "startsFresh prev s =
     ((case prev of None \<Rightarrow> True | Some p \<Rightarrow> \<not> isWordChar p) \<or> s = [] \<or> \<not> isWordChar (hd s))"

section \<open>Sample surroundings\<close>

text \<open>Concrete inputs, on which the theorems below are evaluated.\<close>

definition emptyWorld :: world where
  "emptyWorld = \<lparr> jobs_table = [], companies_table = [], logs_table = [], fetchCalls = [],
                  logAttempts = 0 \<rparr>"

definition rawJob :: "string \<Rightarrow> string \<Rightarrow> raw_job" where
  "rawJob name ttl =
     \<lparr> raw_company_name = Some name, raw_title = Some ttl, raw_location = Some ''Austin, TX'',
       raw_description = Some ''Remote position, occasional office visits'',
       raw_detected_extensions = None, raw_extensions = Some [''2 days ago'', ''Full-time''],
       raw_apply_options = None \<rparr>"

definition examplePage :: "raw_job list" where
  "examplePage =
     [rawJob ''Google LLC'' ''Data Engineer'', rawJob ''Initech'' ''Data Engineer'',
      rawJob ''Globex'' ''Data Engineer II'', rawJob ''Acme Analytics Inc.'' ''Data Engineer'',
      rawJob ''Hooli'' ''Senior Data Engineer'', rawJob ''Umbrella'' ''Data Engineer'',
      rawJob ''Google'' ''Staff Data Engineer'', rawJob ''Vandelay'' ''Data Engineer'',
      rawJob ''Wonka'' ''Data Engineer'', rawJob ''Dunder'' ''Data Engineer'']"

definition exampleEnv :: env where
  \<comment> \<open>Nothing fails; the file of companies has no rows; the first page has ten items,
      every later page none.\<close>
  "exampleEnv =
     \<lparr> dbOpen = None, dbQuery = None, csvRows = Inr [],
       companyRowError = (\<lambda>n. None), companiesCommit = None,
       fetchPage = (\<lambda>startIndex. if startIndex = 0 then Inr \<lparr>jobs_results = Some examplePage\<rparr>
                                   else Inr \<lparr>jobs_results = Some []\<rparr>),
       jobRowError = (\<lambda>n. None), jobsCommit = None, csvWrite = None, logWrite = (\<lambda>n. None),
       clock = (\<lambda>n. ''2024-01-15T10:30:00.000Z'') \<rparr>"

definition blankFileEnv :: env where
  \<comment> \<open>The file of companies has rows, none with a usable name: an empty value, and a
      value of two quotes around blanks.\<close>
  "blankFileEnv =
     exampleEnv\<lparr>csvRows := Inr [[(''EMPLOYER_NAME'', [])],
                                 [(''EMPLOYER_NAME'', [CHR 0x22, CHR '' '', CHR '' '', CHR 0x22])]]\<rparr>"

definition fetchFailEnv :: env where
  \<comment> \<open>Every call to the search service fails.\<close>
  "fetchFailEnv =
     exampleEnv\<lparr>fetchPage := (\<lambda>startIndex. Inl (Error ''Request failed with status code 429''))\<rparr>"

definition logFailEnv :: env where
  \<comment> \<open>Every call to the search service fails, and so does every write of the log.\<close>
  "logFailEnv =
     fetchFailEnv\<lparr>logWrite := (\<lambda>n. Some (Error ''SQLITE_BUSY: database is locked''))\<rparr>"

definition exampleScraper :: scraper where
  "exampleScraper = \<lparr> h1bCompanies = [''google'', ''acme analytics''], stats = initialStats \<rparr>"

definition jobA :: job where
  "jobA =
     \<lparr> company_name = ''Acme'', job_title = ''Data Engineer'', posting_time = ''2 days ago'',
       job_location = ''Austin'', job_type = ''Full-time'', job_description = ''Pipelines'',
       work_setting = ''Remote'', ats_apply_link = ''https://acme.example/jobs'',
       scraped_at = ''2024-01-15T10:30:00.000Z'' \<rparr>"

definition jobA2 :: job where
  \<comment> \<open>The posting of \<open>jobA\<close>, scraped again later.\<close>
  "jobA2 = jobA\<lparr>job_type := [], job_description := [], work_setting := ''Not Specified'',
                  ats_apply_link := [], scraped_at := ''2024-01-16T11:00:00.000Z''\<rparr>"

definition jobB :: job where
  "jobB = jobA\<lparr>company_name := ''Globex'', job_location := ''Denver''\<rparr>"

section \<open>The fingerprint of a job\<close>

text \<open>
  C5. The hash of a job is a function of its company name, title, location and posting
  time: two records that agree on these four fields have the same hash, whatever their
  other fields (type, description, work setting, link, time of scraping) are.
\<close>

theorem generateJobHash_deterministic:
  assumes "company_name j1 = company_name j2"
    and "job_title j1 = job_title j2"
    and "job_location j1 = job_location j2"
    and "posting_time j1 = posting_time j2"
  shows "generateJobHash md5 j1 = generateJobHash md5 j2"
  using assms by (simp add: generateJobHash_def hashString_def)

theorem generateJobHash_deterministic_witness:
  "scraped_at jobA \<noteq> scraped_at jobA2 \<and> job_description jobA \<noteq> job_description jobA2 \<and>
   generateJobHash rev jobA = generateJobHash rev jobA2"
proof -
  have "generateJobHash rev jobA = generateJobHash rev jobA2"
    by (rule generateJobHash_deterministic) (simp_all add: jobA2_def)
  then show ?thesis by (simp add: jobA_def jobA2_def)
qed

section \<open>Searching a string\<close>

lemma startsWith_iff: "startsWith w s \<longleftrightarrow> (\<exists>v. s = w @ v)"
proof
  assume "startsWith w s"
  then have "s = w @ drop (length w) s"
    unfolding startsWith_def by (metis append_take_drop_id)
  then show "\<exists>v. s = w @ v" ..
next
  assume "\<exists>v. s = w @ v"
  then show "startsWith w s" by (auto simp: startsWith_def)
qed

lemma includesStr_iff: "includesStr s sub \<longleftrightarrow> (\<exists>u v. s = u @ sub @ v)"
proof (induction s)
  case Nil
  then show ?case by auto
next
  case (Cons c cs)
  show ?case
  proof
    assume "includesStr (c # cs) sub"
    then consider "startsWith sub (c # cs)" | "includesStr cs sub" by auto
    then show "\<exists>u v. c # cs = u @ sub @ v"
    proof cases
      case 1
      then obtain v where "c # cs = sub @ v" using startsWith_iff by blast
      then have "c # cs = [] @ sub @ v" by simp
      then show ?thesis by blast
    next
      case 2
      then obtain u v where "cs = u @ sub @ v" using Cons.IH by blast
      then have "c # cs = (c # u) @ sub @ v" by simp
      then show ?thesis by blast
    qed
  next
    assume "\<exists>u v. c # cs = u @ sub @ v"
    then obtain u v where uv: "c # cs = u @ sub @ v" by blast
    show "includesStr (c # cs) sub"
    proof (cases u)
      case Nil
      with uv have "startsWith sub (c # cs)" using startsWith_iff by auto
      then show ?thesis by simp
    next
      case (Cons a u')
      with uv have "cs = u' @ sub @ v" by simp
      then have "includesStr cs sub" using Cons.IH by blast
      then show ?thesis by simp
    qed
  qed
qed

lemma includesStr_Nil: "includesStr s []"
  by (induction s) (simp_all add: startsWith_def)

lemma includesStr_containsText: "includesStr s sub = containsText s sub"
  by (simp add: includesStr_iff containsText_def)

section \<open>The work setting\<close>

lemma upper_letters:
  assumes "65 \<le> (of_char c :: nat)" and "(of_char c :: nat) \<le> 90"
  shows "c \<in> set ''ABCDEFGHIJKLMNOPQRSTUVWXYZ''"
proof -
  have "(of_char c :: nat) \<in> {65..<91}" using assms by simp
  then have "(of_char c :: nat) \<in> set [65..<91]" by (simp only: set_upt)
  then have "char_of (of_char c :: nat) \<in> char_of ` set [65..<91 :: nat]"
    by (rule imageI)
  then have "char_of (of_char c :: nat) \<in> set (map char_of [65..<91 :: nat])"
    by (simp only: set_map)
  moreover have "map char_of [65..<91 :: nat] = ''ABCDEFGHIJKLMNOPQRSTUVWXYZ''"
    by code_simp
  ultimately show ?thesis by simp
qed

lemma upper_letters_range:
  "\<forall>c \<in> set ''ABCDEFGHIJKLMNOPQRSTUVWXYZ''. 65 \<le> (of_char c :: nat) \<and> (of_char c :: nat) \<le> 90"
  by simp

lemma lower_upper_letters:
  "c \<in> set ''ABCDEFGHIJKLMNOPQRSTUVWXYZ'' \<Longrightarrow> toLowerChar c = asciiLower c"
proof -
  have "map toLowerChar ''ABCDEFGHIJKLMNOPQRSTUVWXYZ'' = map asciiLower ''ABCDEFGHIJKLMNOPQRSTUVWXYZ''"
    by code_simp
  then have "\<forall>x \<in> set ''ABCDEFGHIJKLMNOPQRSTUVWXYZ''. toLowerChar x = asciiLower x"
    by (simp only: map_eq_conv)
  then show "c \<in> set ''ABCDEFGHIJKLMNOPQRSTUVWXYZ'' \<Longrightarrow> toLowerChar c = asciiLower c"
    by blast
qed

lemma asciiLower_other:
  "c \<notin> set ''ABCDEFGHIJKLMNOPQRSTUVWXYZ'' \<Longrightarrow> asciiLower c = c"
proof -
  assume "c \<notin> set ''ABCDEFGHIJKLMNOPQRSTUVWXYZ''"
  then have "map_of (zip ''ABCDEFGHIJKLMNOPQRSTUVWXYZ'' ''abcdefghijklmnopqrstuvwxyz'') c = None"
    by (subst map_of_zip_is_None) simp_all
  then show ?thesis by (simp only: asciiLower_def option.case)
qed

lemma lower_agree:
  assumes "(of_char x :: nat) < 128"
  shows "(toLowerChar c = x) = (asciiLower c = x)"
proof -
  let ?n = "of_char c :: nat"
  consider "65 \<le> ?n \<and> ?n \<le> 90" | "192 \<le> ?n \<and> ?n \<le> 222 \<and> ?n \<noteq> 215"
    | "\<not> (65 \<le> ?n \<and> ?n \<le> 90) \<and> \<not> (192 \<le> ?n \<and> ?n \<le> 222 \<and> ?n \<noteq> 215)"
    by blast
  then show ?thesis
  proof cases
    case 1
    then have "toLowerChar c = asciiLower c"
      using upper_letters lower_upper_letters by blast
    then show ?thesis by simp
  next
    case 2
    then have nu: "c \<notin> set ''ABCDEFGHIJKLMNOPQRSTUVWXYZ''"
      using upper_letters_range by fastforce
    have a: "asciiLower c = c" using nu by (rule asciiLower_other)
    have t: "toLowerChar c = char_of (?n + 32)"
      using 2 by (simp add: toLowerChar_def Let_def)
    have "(of_char (toLowerChar c) :: nat) = (?n + 32) mod 256"
      unfolding t by simp
    with 2 have "(of_char (toLowerChar c) :: nat) \<ge> 128" by simp
    with assms have n1: "toLowerChar c \<noteq> x" by auto
    from 2 assms have n2: "c \<noteq> x" by auto
    from n1 n2 a show ?thesis by simp
  next
    case 3
    then have nu: "c \<notin> set ''ABCDEFGHIJKLMNOPQRSTUVWXYZ''"
      using upper_letters_range by fastforce
    have a: "asciiLower c = c" using nu by (rule asciiLower_other)
    have t: "toLowerChar c = c" using 3 by (auto simp add: toLowerChar_def Let_def)
    from a t show ?thesis by simp
  qed
qed

lemma map_keyword_cong:
  assumes "\<forall>c. \<forall>x \<in> set ys. (f c = x) = (g c = x)"
    and "map f xs = ys"
  shows "map g xs = ys"
  using assms by (induction xs arbitrary: ys) auto

lemma containsText_map_imp:
  assumes "\<forall>c. \<forall>x \<in> set kw. (f c = x) = (g c = x)"
    and "containsText (map f t) kw"
  shows "containsText (map g t) kw"
proof -
  from assms(2) obtain u v where "map f t = u @ kw @ v"
    unfolding containsText_def by blast
  then obtain tu r where t1: "t = tu @ r" "map f tu = u" "map f r = kw @ v"
    by (metis map_eq_append_conv)
  then obtain tk tv where t2: "r = tk @ tv" "map f tk = kw" "map f tv = v"
    by (metis map_eq_append_conv)
  from map_keyword_cong [OF assms(1) t2(2)] have "map g tk = kw" .
  with t1(1) t2(1) have "map g t = map g tu @ kw @ map g tv" by simp
  then show ?thesis unfolding containsText_def by blast
qed

lemma containsText_lower:
  assumes "\<forall>x \<in> set kw. (of_char x :: nat) < 128"
  shows "containsText (toLowerCase t) kw = containsText (map asciiLower t) kw"
proof -
  have a: "\<forall>c. \<forall>x \<in> set kw. (toLowerChar c = x) = (asciiLower c = x)"
    using assms lower_agree by blast
  then have b: "\<forall>c. \<forall>x \<in> set kw. (asciiLower c = x) = (toLowerChar c = x)" by blast
  show ?thesis
    unfolding toLowerCase_def
    using containsText_map_imp [OF a] containsText_map_imp [OF b] by blast
qed

lemma join_spaced: "join es = spaced es"
  by (induction es rule: join.induct) (simp_all add: spaced_def)

lemma workSettingText_spaced:
  "workSettingText (Some d) extensions =
     toLowerCase (d @ '' '' @ spaced (case extensions of None \<Rightarrow> [] | Some es \<Rightarrow> es))"
  "workSettingText None extensions =
     toLowerCase (''undefined'' @ '' '' @
                  spaced (case extensions of None \<Rightarrow> [] | Some es \<Rightarrow> es))"
  by (simp_all add: workSettingText_def join_spaced)

lemma specWorkSetting_lower:
  "specWorkSetting (toLowerCase t) = specWorkSetting (map asciiLower t)"
proof -
  have "containsText (toLowerCase t) ''remote'' = containsText (map asciiLower t) ''remote''"
    by (rule containsText_lower) simp
  moreover have "containsText (toLowerCase t) ''onsite'' = containsText (map asciiLower t) ''onsite''"
    by (rule containsText_lower) simp
  moreover have "containsText (toLowerCase t) ''office'' = containsText (map asciiLower t) ''office''"
    by (rule containsText_lower) simp
  moreover have "containsText (toLowerCase t) ''on-site'' = containsText (map asciiLower t) ''on-site''"
    by (rule containsText_lower) simp
  ultimately show ?thesis by (simp only: specWorkSetting_def)
qed

lemma extractWorkSetting_text:
  "extractWorkSetting description extensions =
     specWorkSetting (workSettingText description extensions)"
  by (simp add: extractWorkSetting_def specWorkSetting_def Let_def includesStr_containsText)

text \<open>
  C9. For every description and list of extensions, \<open>extractWorkSetting\<close> lower-cases
  the description, a space and the extensions joined by spaces, and decides on that
  text as the specification says: Hybrid when it contains "remote" and also "onsite"
  or "office"; otherwise Remote when it contains "remote"; otherwise Onsite when it
  contains "onsite", "office" or "on-site"; otherwise Not Specified. The test for
  Hybrid comes first, so a text with "remote" and with "onsite" or "office" is Hybrid.
  An absent description enters the text as the word "undefined".
\<close>

theorem extractWorkSetting_spec:
  "extractWorkSetting (Some d) extensions = specWorkSetting (specText d extensions) \<and>
   extractWorkSetting None extensions = specWorkSetting (specText ''undefined'' extensions) \<and>
   (containsText (specText d extensions) ''remote'' \<and>
    (containsText (specText d extensions) ''onsite'' \<or>
     containsText (specText d extensions) ''office'')
    \<longrightarrow> extractWorkSetting (Some d) extensions = ''Hybrid'')"
proof -
  have a: "extractWorkSetting (Some d) extensions = specWorkSetting (specText d extensions)"
    unfolding extractWorkSetting_text workSettingText_spaced specWorkSetting_lower specText_def ..
  have b: "extractWorkSetting None extensions = specWorkSetting (specText ''undefined'' extensions)"
    unfolding extractWorkSetting_text workSettingText_spaced specWorkSetting_lower specText_def ..
  from a b show ?thesis by (simp add: specWorkSetting_def)
qed

theorem extractWorkSetting_spec_witness:
  "specText ''Remote position'' (Some [''3 days ago'', ''Work from our OFFICE'']) =
     ''remote position 3 days ago work from our office'' \<and>
   extractWorkSetting (Some ''Remote position'') (Some [''3 days ago'', ''Work from our OFFICE'']) =
     ''Hybrid'' \<and>
   extractWorkSetting (Some ''Flexible arrangement'') (Some [''Full-time'']) = ''Not Specified''"
proof -
  let ?es = "Some [''3 days ago'', ''Work from our OFFICE'']"
  have t: "specText ''Remote position'' ?es = ''remote position 3 days ago work from our office''"
    by code_simp
  have "specText ''Remote position'' ?es =
      [] @ ''remote'' @ '' position 3 days ago work from our office''"
    unfolding t by simp
  then have r: "containsText (specText ''Remote position'' ?es) ''remote''"
    unfolding containsText_def by blast
  have "specText ''Remote position'' ?es =
      ''remote position 3 days ago work from our '' @ ''office'' @ []"
    unfolding t by simp
  then have f: "containsText (specText ''Remote position'' ?es) ''office''"
    unfolding containsText_def by blast
  have h: "extractWorkSetting (Some ''Remote position'') ?es = ''Hybrid''"
    using r f extractWorkSetting_spec [of "''Remote position''" ?es] by blast
  have t2: "specText ''Flexible arrangement'' (Some [''Full-time'']) =
      ''flexible arrangement full-time''"
    by code_simp
  have n: "specWorkSetting ''flexible arrangement full-time'' = ''Not Specified''"
    unfolding specWorkSetting_def includesStr_containsText [symmetric] by code_simp
  have "extractWorkSetting (Some ''Flexible arrangement'') (Some [''Full-time'']) =
      ''Not Specified''"
    using extractWorkSetting_spec [of "''Flexible arrangement''" "Some [''Full-time'']", THEN conjunct1]
    unfolding t2 n .
  with t h show ?thesis by (intro conjI)
qed

section \<open>Matching against a degenerate entry\<close>

lemma anyEntry_iff: "anyEntry n hs \<longleftrightarrow> (\<exists>h \<in> set hs. matchesEntry n h)"
  by (induction hs) auto

text \<open>
  C10. If an entry of the set of companies cleans to the empty string, as "inc" and
  "co." do, then \<open>isH1BCompany\<close> is true of every name that is not empty: the empty
  string is contained in every cleaned name.
\<close>

theorem degenerate_entry_matches_all:
  assumes "h \<in> set companies"
    and "cleanCompanyName h = []"
    and "name \<noteq> []"
  shows "isH1BCompany companies (Some name)"
proof -
  have "matchesEntry (trim (toLowerCase name)) h"
    using assms(2) by (simp add: matchesEntry_def Let_def includesStr_Nil)
  with assms(1) have "anyEntry (trim (toLowerCase name)) companies"
    using anyEntry_iff by blast
  with assms(3) show ?thesis
    by (simp add: isH1BCompany_def Let_def)
qed

theorem degenerate_entry_matches_all_witness:
  "cleanCompanyName ''inc'' = [] \<and> cleanCompanyName ''co.'' = [] \<and>
   isH1BCompany [''google'', ''co.''] (Some ''Totally Unrelated Startup'') \<and>
   \<not> isH1BCompany [''google''] (Some ''Totally Unrelated Startup'')"
proof -
  have c1: "cleanCompanyName ''inc'' = []" by code_simp
  have c2: "cleanCompanyName ''co.'' = []" by code_simp
  have m: "''co.'' \<in> set [''google'', ''co.'']" by simp
  have n: "''Totally Unrelated Startup'' \<noteq> []" by simp
  have u: "\<not> isH1BCompany [''google''] (Some ''Totally Unrelated Startup'')" by code_simp
  show ?thesis
    using c1 c2 u degenerate_entry_matches_all [OF m c2 n] by simp
qed

section \<open>Cleaning a name\<close>

lemma isWordChar_plain: "isWordChar c \<Longrightarrow> \<not> isSpace c \<and> c \<noteq> CHR '','' \<and> c \<noteq> CHR ''.''"
  by (auto simp: isSpace_def isWordChar_def)

lemma firstMatch_None:
  "\<forall>alt \<in> set alts. \<not> startsWith (fst alt) s \<Longrightarrow> firstMatch s alts = None"
  by (induction alts) (auto simp: matchAlternative_def)

lemma vocabulary_words:
  "\<forall>alt \<in> set suffixVocabulary. 2 \<le> length (fst alt) \<and> (\<forall>x \<in> set (fst alt). isWordChar x)"
  by (simp add: suffixVocabulary_def isWordChar_def)

lemma startsWith_second:
  assumes "startsWith w (c # p # s)" and "2 \<le> length w"
  shows "c \<in> set w \<and> p \<in> set w"
proof -
  obtain a b w' where w: "w = a # b # w'"
    using assms(2) by (cases w; cases "tl w") auto
  with assms(1) show ?thesis by (simp add: startsWith_def)
qed

lemma firstMatch_punct1:
  assumes "\<not> isWordChar p"
  shows "firstMatch (p # s) suffixVocabulary = None"
proof (cases s)
  case Nil
  then show ?thesis by (simp add: suffixVocabulary_def matchAlternative_def startsWith_def)
next
  case (Cons x xs)
  show ?thesis unfolding Cons
  proof (rule firstMatch_None, rule ballI)
    fix alt assume "alt \<in> set suffixVocabulary"
    with vocabulary_words have "2 \<le> length (fst alt)" "\<forall>x \<in> set (fst alt). isWordChar x"
      by auto
    with assms startsWith_second [of "fst alt" p x xs]
    show "\<not> startsWith (fst alt) (p # x # xs)" by blast
  qed
qed

lemma vocabulary_fst: "map fst suffixVocabulary = specVocabulary"
  by (simp add: suffixVocabulary_def specVocabulary_def)

lemma vocabulary_alt:
  assumes "(v, dot) \<in> set suffixVocabulary"
  shows "v \<noteq> [] \<and> (\<forall>x \<in> set v. isWordChar x)"
  using assms vocabulary_words by fastforce

text \<open>One alternative at the start of a run of word characters.\<close>

lemma matchAlternative_run:
  assumes w: "w \<noteq> []" "\<forall>x \<in> set w. isWordChar x"
    and rest: "rest = [] \<or> \<not> isWordChar (hd rest)"
    and v: "v \<noteq> []" "\<forall>x \<in> set v. isWordChar x"
  shows "matchAlternative (w @ rest) (v, dot) =
     (if v = w
      then Some (if dot \<and> headOpt rest = Some (CHR ''.'') \<and>
                    wordBoundary (Some (CHR ''.'')) (headOpt (tl rest))
                 then length w + 1 else length w)
      else None)"
proof (cases "v = w")
  case True
  have lw: "isWordChar (last w)" using w by simp
  have "wordBoundary (Some (last w)) (headOpt rest)"
    using rest lw by (cases rest) (auto simp: wordBoundary_def headOpt_def)
  with True show ?thesis
    by (simp add: matchAlternative_def startsWith_def)
next
  case False
  show ?thesis
  proof (cases "startsWith v (w @ rest)")
    case no: False
    with False show ?thesis by (simp add: matchAlternative_def)
  next
    case True
    then obtain x where x: "w @ rest = v @ x" using startsWith_iff by blast
    then consider us where "w = v @ us" "us @ rest = x" | us where "w @ us = v" "rest = us @ x"
      by (auto simp: append_eq_append_conv2)
    then show ?thesis
    proof cases
      case 1
      with False have ne: "us \<noteq> []" by auto
      then have hx: "headOpt x = Some (hd us)"
        using 1(2) by (cases us) (auto simp: headOpt_def)
      have "hd us \<in> set w" using 1(1) ne by (cases us) auto
      then have wu: "isWordChar (hd us)" using w(2) by blast
      then have nd: "hd us \<noteq> CHR ''.''" by (auto simp: isWordChar_def)
      have lv: "isWordChar (last v)" using v by simp
      have dr: "drop (length v) (w @ rest) = x" using x by simp
      have "\<not> wordBoundary (Some (last v)) (headOpt x)"
        using hx wu lv by (simp add: wordBoundary_def)
      with False True hx nd dr show ?thesis
        by (simp add: matchAlternative_def)
    next
      case 2
      with False have ne: "us \<noteq> []" by auto
      then have "hd us \<in> set v" using 2(1) by (cases us) auto
      then have "isWordChar (hd us)" using v(2) by blast
      moreover have "rest \<noteq> [] \<and> hd rest = hd us" using 2(2) ne by (cases us) auto
      ultimately show ?thesis using rest by auto
    qed
  qed
qed

lemma firstMatch_run:
  assumes w: "w \<noteq> []" "\<forall>x \<in> set w. isWordChar x"
    and rest: "rest = [] \<or> \<not> isWordChar (hd rest)"
    and alts: "\<forall>alt \<in> set alts. fst alt \<noteq> [] \<and> (\<forall>x \<in> set (fst alt). isWordChar x)"
  shows "(w \<notin> set (map fst alts) \<longrightarrow> firstMatch (w @ rest) alts = None) \<and>
     (w \<in> set (map fst alts) \<longrightarrow>
        firstMatch (w @ rest) alts = Some (length w) \<or>
        (firstMatch (w @ rest) alts = Some (length w + 1) \<and> headOpt rest = Some (CHR ''.'')))"
  using alts
proof (induction alts)
  case Nil
  then show ?case by simp
next
  case (Cons alt alts)
  obtain v dot where alt: "alt = (v, dot)" by (cases alt)
  with Cons.prems have v: "v \<noteq> []" "\<forall>x \<in> set v. isWordChar x" by auto
  note m = matchAlternative_run [OF w rest v, of dot]
  from Cons have ih: "(w \<notin> set (map fst alts) \<longrightarrow> firstMatch (w @ rest) alts = None) \<and>
     (w \<in> set (map fst alts) \<longrightarrow>
        firstMatch (w @ rest) alts = Some (length w) \<or>
        (firstMatch (w @ rest) alts = Some (length w + 1) \<and> headOpt rest = Some (CHR ''.'')))"
    by simp
  show ?case
  proof (cases "v = w")
    case True
    with m alt show ?thesis by (auto split: if_splits)
  next
    case False
    with m alt ih show ?thesis by auto
  qed
qed

lemma firstMatch_vocabulary:
  assumes "w \<noteq> []" "\<forall>x \<in> set w. isWordChar x" "rest = [] \<or> \<not> isWordChar (hd rest)"
  shows "(w \<notin> set specVocabulary \<longrightarrow> firstMatch (w @ rest) suffixVocabulary = None) \<and>
     (w \<in> set specVocabulary \<longrightarrow>
        firstMatch (w @ rest) suffixVocabulary = Some (length w) \<or>
        (firstMatch (w @ rest) suffixVocabulary = Some (length w + 1) \<and>
         headOpt rest = Some (CHR ''.'')))"
proof -
  have "\<forall>alt \<in> set suffixVocabulary. fst alt \<noteq> [] \<and> (\<forall>x \<in> set (fst alt). isWordChar x)"
    using vocabulary_words by fastforce
  from firstMatch_run [OF assms this] show ?thesis
    by (simp only: vocabulary_fst)
qed

text \<open>The scan with the pattern and the description in terms of runs.\<close>

lemma removeSuffixes_skip:
  "length a = k \<Longrightarrow>
     removeSuffixes k prev (a @ b) =
       removeSuffixes 0 (if a = [] then prev else Some (last a)) b"
  by (induction a arbitrary: k prev) auto

lemma matchSuffixAt_inside:
  "isWordChar p \<Longrightarrow> isWordChar c \<Longrightarrow> matchSuffixAt (Some p) (c # cs) = None"
  by (simp add: matchSuffixAt_def wordBoundary_def headOpt_def)

lemma removeSuffixes_inside:
  "isWordChar p \<Longrightarrow> \<forall>x \<in> set w. isWordChar x \<Longrightarrow>
     removeSuffixes 0 (Some p) (w @ rest) =
       w @ removeSuffixes 0 (Some (last (p # w))) rest"
  by (induction w arbitrary: p) (simp_all add: matchSuffixAt_inside)

lemma matchSuffixAt_other:
  "\<not> isWordChar c \<Longrightarrow> matchSuffixAt prev (c # cs) = None"
  by (simp add: matchSuffixAt_def firstMatch_punct1)

lemma removePunctuation_Cons:
  "removePunctuation (c # x) =
     (if c = CHR '','' \<or> c = CHR ''.'' then removePunctuation x else c # removePunctuation x)"
  by (simp add: removePunctuation_def)

lemma removePunctuation_append:
  "removePunctuation (x @ y) = removePunctuation x @ removePunctuation y"
  by (simp add: removePunctuation_def)

lemma run_split:
  "isWordChar c \<Longrightarrow>
     c # cs = (c # takeWhile isWordChar cs) @ dropWhile isWordChar cs \<and>
     (\<forall>x \<in> set (c # takeWhile isWordChar cs). isWordChar x) \<and>
     (dropWhile isWordChar cs = [] \<or> \<not> isWordChar (hd (dropWhile isWordChar cs)))"
  using hd_dropWhile [of isWordChar cs] by (auto dest: set_takeWhileD)

lemma removeSuffixes_dropVocabulary:
  "startsFresh prev s \<Longrightarrow>
     removePunctuation (removeSuffixes 0 prev s) = removePunctuation (dropVocabulary s)"
proof (induction s arbitrary: prev rule: length_induct)
  case (1 s)
  show ?case
  proof (cases s)
    case Nil
    then show ?thesis by simp
  next
    case (Cons c cs)
    show ?thesis
    proof (cases "isWordChar c")
      case False
      have f: "startsFresh (Some c) cs" using False by (simp add: startsFresh_def)
      have lcs: "length cs < length s" using Cons by simp
      have ih: "removePunctuation (removeSuffixes 0 (Some c) cs) = removePunctuation (dropVocabulary cs)"
        using "1.IH" lcs f by blast
      have r: "removeSuffixes 0 prev (c # cs) = c # removeSuffixes 0 (Some c) cs"
        using False by (simp add: matchSuffixAt_other)
      have d: "dropVocabulary (c # cs) = c # dropVocabulary cs"
        using False by simp
      show ?thesis unfolding Cons r d removePunctuation_Cons ih ..
    next
      case True
      let ?w = "c # takeWhile isWordChar cs"
      let ?rest = "dropWhile isWordChar cs"
      from run_split [OF True, of cs]
      have s: "c # cs = ?w @ ?rest" and ww: "\<forall>x \<in> set ?w. isWordChar x"
        and rr: "?rest = [] \<or> \<not> isWordChar (hd ?rest)" by blast+
      have wne: "?w \<noteq> []" by simp
      have weq: "?w @ ?rest = c # cs" by simp
      note fm = firstMatch_vocabulary [OF wne ww rr, unfolded weq]
      have fresh: "\<And>q. startsFresh q ?rest" using rr by (simp add: startsFresh_def)
      have lrest: "length ?rest < length s"
        using Cons length_dropWhile_le [of isWordChar cs] by simp
      have ihrest: "\<And>q. removePunctuation (removeSuffixes 0 q ?rest) =
          removePunctuation (dropVocabulary ?rest)"
        using "1.IH" lrest fresh by blast
      from "1.prems" have "startsFresh prev (c # cs)" unfolding Cons .
      then have np: "case prev of None \<Rightarrow> True | Some p \<Rightarrow> \<not> isWordChar p"
        using True by (simp add: startsFresh_def)
      have pb: "wordBoundary prev (headOpt (c # cs))"
        using np True by (cases prev) (simp_all add: wordBoundary_def headOpt_def)
      have ms: "matchSuffixAt prev (c # cs) = firstMatch (c # cs) suffixVocabulary"
        using pb by (simp only: matchSuffixAt_def if_True)
      have lastw: "last (c # takeWhile isWordChar cs) = last ?w" by simp
      show ?thesis
      proof (cases "?w \<in> set specVocabulary")
        case notin: False
        with fm ms have "matchSuffixAt prev (c # cs) = None" by simp
        then have r0: "removeSuffixes 0 prev (c # cs) = c # removeSuffixes 0 (Some c) cs" by simp
        have "\<forall>x \<in> set (takeWhile isWordChar cs). isWordChar x" using ww by simp
        then have "removeSuffixes 0 (Some c) (takeWhile isWordChar cs @ ?rest) =
            takeWhile isWordChar cs @ removeSuffixes 0 (Some (last ?w)) ?rest"
          by (rule removeSuffixes_inside [OF True])
        then have "removeSuffixes 0 (Some c) cs =
            takeWhile isWordChar cs @ removeSuffixes 0 (Some (last ?w)) ?rest"
          by (simp only: takeWhile_dropWhile_id)
        with r0 have r: "removeSuffixes 0 prev (c # cs) =
            ?w @ removeSuffixes 0 (Some (last ?w)) ?rest" by simp
        have d: "dropVocabulary (c # cs) = ?w @ dropVocabulary ?rest"
          using True notin by (simp add: Let_def)
        show ?thesis unfolding Cons r d removePunctuation_append ihrest ..
      next
        case isin: True
        have d: "dropVocabulary (c # cs) = dropVocabulary ?rest"
          using True isin by (simp add: Let_def)
        from fm isin ms consider
          (plain) "matchSuffixAt prev (c # cs) = Some (length ?w)"
          | (dotted) "matchSuffixAt prev (c # cs) = Some (length ?w + 1)"
              "headOpt ?rest = Some (CHR ''.'')"
          by auto
        then show ?thesis
        proof cases
          case plain
          then have "removeSuffixes 0 prev (c # cs) =
              removeSuffixes (length (takeWhile isWordChar cs)) (Some c) cs"
            by simp
          also have "\<dots> = removeSuffixes (length (takeWhile isWordChar cs)) (Some c)
                (takeWhile isWordChar cs @ ?rest)"
            by (simp only: takeWhile_dropWhile_id)
          also have "\<dots> = removeSuffixes 0
              (if takeWhile isWordChar cs = [] then Some c
               else Some (last (takeWhile isWordChar cs))) ?rest"
            by (rule removeSuffixes_skip) (rule refl)
          finally have "removeSuffixes 0 prev (c # cs) = removeSuffixes 0
              (if takeWhile isWordChar cs = [] then Some c
               else Some (last (takeWhile isWordChar cs))) ?rest" .
          then show ?thesis unfolding Cons d by (simp only: ihrest)
        next
          case dotted
          then obtain r' where rest': "?rest = CHR ''.'' # r'"
            by (cases ?rest) (auto simp: headOpt_def)
          have nd: "\<not> isWordChar (CHR ''.'')" by (simp add: isWordChar_def)
          have lr': "length r' < length s"
            using lrest rest' by simp
          have f': "startsFresh (Some (CHR ''.'')) r'" using nd by (simp add: startsFresh_def)
          have ih': "removePunctuation (removeSuffixes 0 (Some (CHR ''.'')) r') =
              removePunctuation (dropVocabulary r')"
            using "1.IH" lr' f' by blast
          have "takeWhile isWordChar cs @ ?rest = cs" by simp
          then have "takeWhile isWordChar cs @ (CHR ''.'' # r') = cs" by (simp only: rest')
          then have cs': "(takeWhile isWordChar cs @ [CHR ''.'']) @ r' = cs" by simp
          from dotted(1) have "removeSuffixes 0 prev (c # cs) =
              removeSuffixes (length (takeWhile isWordChar cs @ [CHR ''.''])) (Some c) cs"
            by simp
          also have "\<dots> = removeSuffixes (length (takeWhile isWordChar cs @ [CHR ''.''])) (Some c)
              ((takeWhile isWordChar cs @ [CHR ''.'']) @ r')"
            by (simp only: cs')
          also have "\<dots> = removeSuffixes 0
              (if takeWhile isWordChar cs @ [CHR ''.''] = [] then Some c
               else Some (last (takeWhile isWordChar cs @ [CHR ''.'']))) r'"
            by (rule removeSuffixes_skip) (rule refl)
          also have "\<dots> = removeSuffixes 0 (Some (CHR ''.'')) r'" by simp
          finally have r: "removeSuffixes 0 prev (c # cs) = removeSuffixes 0 (Some (CHR ''.'')) r'" .
          have "dropVocabulary (CHR ''.'' # r') = CHR ''.'' # dropVocabulary r'"
            using nd by simp
          then have "removePunctuation (dropVocabulary ?rest) = removePunctuation (dropVocabulary r')"
            unfolding rest' by (simp add: removePunctuation_Cons)
          with r ih' show ?thesis unfolding Cons d by (simp only:)
        qed
      qed
    qed
  qed
qed

text \<open>Collapsing and trimming, and the words of a string.\<close>

lemma splitSpaces_ne: "splitSpaces s \<noteq> []"
  by (induction s) (auto split: list.splits)

lemma wordsOf_Nil: "wordsOf [] = []"
  by (simp add: wordsOf_def)

lemma wordsOf_space: "isSpace c \<Longrightarrow> wordsOf (c # s) = wordsOf s"
  by (simp add: wordsOf_def)

lemma wordsOf_char:
  assumes "\<not> isSpace c"
  shows "wordsOf (c # s) =
     (case s of
        [] \<Rightarrow> [[c]]
      | a # s' \<Rightarrow> if isSpace a then [c] # wordsOf s
                  else (c # hd (wordsOf s)) # tl (wordsOf s))"
proof (cases s)
  case Nil
  with assms show ?thesis by (simp add: wordsOf_def)
next
  case (Cons a s')
  obtain w ws where sp: "splitSpaces s' = w # ws"
    using splitSpaces_ne [of s'] by (cases "splitSpaces s'") auto
  show ?thesis
    using assms Cons sp by (simp add: wordsOf_def)
qed

lemma wordsOf_head_ne: "\<not> isSpace a \<Longrightarrow> wordsOf (a # s) \<noteq> []"
  using splitSpaces_ne [of s] by (cases "splitSpaces s") (auto simp: wordsOf_def)

lemma spaced_Nil: "spaced [] = []"
  by (simp add: spaced_def)

lemma spaced_empty: "spaced ws = [] \<longleftrightarrow> ws = [] \<or> ws = [[]]"
  by (cases ws) (auto simp: spaced_def)

lemma wordsOf_words: "w \<in> set (wordsOf s) \<Longrightarrow> w \<noteq> []"
  by (simp add: wordsOf_def)

lemma spaced_wordsOf_empty: "spaced (wordsOf s) = [] \<longleftrightarrow> wordsOf s = []"
  using wordsOf_words [of "[]" s] by (auto simp: spaced_empty)

lemma rtrim_Cons:
  "rtrim (a # x) = (if isSpace a \<and> rtrim x = [] then [] else a # rtrim x)"
  by (auto simp: rtrim_def dropWhile_append)

lemma collapse_rtrim:
  "rtrim (collapseSpaces True s) = spaced (wordsOf s) \<and>
   rtrim (collapseSpaces False s) =
     (if s \<noteq> [] \<and> isSpace (hd s) \<and> wordsOf s \<noteq> [] then CHR '' '' # spaced (wordsOf s)
      else spaced (wordsOf s))"
proof (induction s)
  case Nil
  show ?case by (simp add: rtrim_def wordsOf_Nil spaced_def)
next
  case (Cons c s)
  have sp: "isSpace (CHR '' '')" by (simp add: isSpace_def)
  note IH = Cons.IH
  show ?case
  proof (cases "isSpace c")
    case True
    with IH sp show ?thesis
      by (auto simp: wordsOf_space rtrim_Cons spaced_wordsOf_empty spaced_Nil)
  next
    case False
    have r: "rtrim (collapseSpaces b (c # s)) = c # rtrim (collapseSpaces False s)" for b
      using False by (simp add: rtrim_Cons)
    have "spaced (wordsOf (c # s)) = c # rtrim (collapseSpaces False s)"
    proof (cases s)
      case Nil
      with False show ?thesis by (simp add: wordsOf_def spaced_def rtrim_def)
    next
      case (Cons a s')
      show ?thesis
      proof (cases "isSpace a")
        case True
        have "wordsOf (c # s) = [c] # wordsOf s"
          using wordsOf_char [OF False, of s] Cons True by simp
        then have "spaced (wordsOf (c # s)) =
            c # (if wordsOf s = [] then [] else CHR '' '' # spaced (wordsOf s))"
          by (cases "wordsOf s") (simp_all add: spaced_def)
        with IH Cons True show ?thesis by (auto simp: spaced_Nil)
      next
        case na: False
        have ne: "wordsOf s \<noteq> []" unfolding Cons using na by (rule wordsOf_head_ne)
        have "wordsOf (c # s) = (c # hd (wordsOf s)) # tl (wordsOf s)"
          using wordsOf_char [OF False, of s] Cons na by simp
        then have "spaced (wordsOf (c # s)) = c # spaced (wordsOf s)"
          using ne by (cases "wordsOf s") (simp_all add: spaced_def)
        with IH Cons na show ?thesis by (auto simp: spaced_Nil)
      qed
    qed
    with r show ?thesis using False by simp
  qed
qed

lemma collapseSpaces_True_head:
  "collapseSpaces True s = [] \<or> \<not> isSpace (hd (collapseSpaces True s))"
  by (induction s) auto

lemma trim_rtrim: "trim s = rtrim (dropWhile isSpace s)"
  by (simp add: trim_def rtrim_def)

lemma dropWhile_fresh: "x = [] \<or> \<not> P (hd x) \<Longrightarrow> dropWhile P x = x"
  by (cases x) auto

lemma trim_collapseSpaces: "trim (collapseSpaces False s) = spaced (wordsOf s)"
proof (cases s)
  case Nil
  then show ?thesis by (simp add: trim_def wordsOf_Nil spaced_def)
next
  case (Cons c cs)
  have sp: "isSpace (CHR '' '')" by (simp add: isSpace_def)
  show ?thesis
  proof (cases "isSpace c")
    case True
    have "dropWhile isSpace (collapseSpaces False s) = dropWhile isSpace (collapseSpaces True cs)"
      using Cons True sp by simp
    also have "\<dots> = collapseSpaces True cs"
      using collapseSpaces_True_head [of cs] by (rule dropWhile_fresh)
    finally have "trim (collapseSpaces False s) = rtrim (collapseSpaces True cs)"
      by (simp only: trim_rtrim)
    with collapse_rtrim [of cs] Cons True show ?thesis
      by (simp add: wordsOf_space)
  next
    case False
    have "dropWhile isSpace (collapseSpaces False s) = collapseSpaces False s"
      using Cons False by simp
    then have "trim (collapseSpaces False s) = rtrim (collapseSpaces False s)"
      by (simp only: trim_rtrim)
    with collapse_rtrim [of s] Cons False show ?thesis by simp
  qed
qed

lemma cleanCompanyName_specClean: "cleanCompanyName name = specClean name"
proof -
  have "startsFresh None name" by (simp add: startsFresh_def)
  then have "removePunctuation (removeSuffixes 0 None name) =
      removePunctuation (dropVocabulary name)"
    by (rule removeSuffixes_dropVocabulary)
  then show ?thesis
    by (simp only: cleanCompanyName_def specClean_def trim_collapseSpaces removePunctuation_def)
qed

lemma punct_not_word: "p = CHR '','' \<or> p = CHR ''.'' \<Longrightarrow> \<not> isWordChar p"
  by (auto simp: isWordChar_def)

lemma dropVocabulary_run:
  assumes "w \<noteq> []" and "\<forall>x \<in> set w. isWordChar x"
    and "rest = [] \<or> \<not> isWordChar (hd rest)"
  shows "dropVocabulary (w @ rest) =
     (if w \<in> set specVocabulary then [] else w) @ dropVocabulary rest"
proof -
  obtain c w' where w: "w = c # w'" using assms(1) by (cases w) auto
  have all: "\<forall>x \<in> set w'. isWordChar x" and c: "isWordChar c" using assms(2) w by auto
  have stop: "takeWhile isWordChar rest = [] \<and> dropWhile isWordChar rest = rest"
    using assms(3) by (cases rest) auto
  have t: "takeWhile isWordChar (w' @ rest) = w'"
    using all stop by (simp add: takeWhile_append2)
  have d: "dropWhile isWordChar (w' @ rest) = rest"
    using all stop by (simp add: dropWhile_append2)
  show ?thesis unfolding w using c t d by (simp add: Let_def)
qed

lemma splitSpaces_plain: "\<forall>x \<in> set s. \<not> isSpace x \<Longrightarrow> splitSpaces s = [s]"
  by (induction s) auto

lemma cleanCompanyName_tokens:
  assumes u: "u \<noteq> []" "\<forall>x \<in> set u. isWordChar x" "u \<notin> set specVocabulary"
    and v: "v \<noteq> []" "\<forall>x \<in> set v. isWordChar x" "v \<notin> set specVocabulary"
    and p: "p = CHR '','' \<or> p = CHR ''.''"
  shows "cleanCompanyName (u @ [p] @ v) = u @ v"
proof -
  have np: "\<not> isWordChar p" using p by (rule punct_not_word)
  have "dropVocabulary (v @ []) = v"
    using dropVocabulary_run [OF v(1,2), of "[]"] v(3) by simp
  then have dv: "dropVocabulary v = v" by simp
  have "dropVocabulary (p # v) = p # v" using np dv by simp
  moreover have "dropVocabulary (u @ (p # v)) = u @ dropVocabulary (p # v)"
    using dropVocabulary_run [OF u(1,2), of "p # v"] u(3) np by simp
  ultimately have d: "dropVocabulary (u @ [p] @ v) = u @ p # v" by simp
  have f: "filter (\<lambda>c. c \<noteq> CHR '','' \<and> c \<noteq> CHR ''.'') (u @ p # v) = u @ v"
    using u(2) v(2) p isWordChar_plain by (auto simp: filter_id_conv)
  have "\<forall>x \<in> set (u @ v). \<not> isSpace x" using u(2) v(2) isWordChar_plain by auto
  then have "splitSpaces (u @ v) = [u @ v]" by (rule splitSpaces_plain)
  then have w: "wordsOf (u @ v) = [u @ v]" using u(1) by (simp add: wordsOf_def)
  show ?thesis
    by (simp only: cleanCompanyName_specClean specClean_def d f w) (simp add: spaced_def)
qed

lemma dropVocabulary_append:
  "pre = [] \<or> \<not> isWordChar (last pre) \<Longrightarrow>
     dropVocabulary (pre @ s) = dropVocabulary pre @ dropVocabulary s"
proof (induction pre rule: length_induct)
  case (1 pre)
  show ?case
  proof (cases pre)
    case Nil
    then show ?thesis by simp
  next
    case (Cons c cs)
    show ?thesis
    proof (cases "isWordChar c")
      case False
      have b: "cs = [] \<or> \<not> isWordChar (last cs)"
        using "1.prems" Cons by (cases cs) auto
      have "length cs < length pre" using Cons by simp
      with "1.IH" b have "dropVocabulary (cs @ s) = dropVocabulary cs @ dropVocabulary s"
        by blast
      with False show ?thesis unfolding Cons by simp
    next
      case True
      from "1.prems" Cons True have ne: "cs \<noteq> []" and lc: "\<not> isWordChar (last cs)"
        by (cases cs; auto)+
      then have ex: "last cs \<in> set cs \<and> \<not> isWordChar (last cs)" by simp
      have t: "takeWhile isWordChar (cs @ s) = takeWhile isWordChar cs"
        using ex by (metis takeWhile_append1)
      have d: "dropWhile isWordChar (cs @ s) = dropWhile isWordChar cs @ s"
        using ex by (metis dropWhile_append1)
      let ?r = "dropWhile isWordChar cs"
      have rne: "?r \<noteq> []" using ex by (metis dropWhile_eq_Nil_conv)
      have "last (takeWhile isWordChar cs @ ?r) = last ?r" using rne by (rule last_appendR)
      then have "last cs = last ?r" by (simp only: takeWhile_dropWhile_id)
      with lc have b: "?r = [] \<or> \<not> isWordChar (last ?r)" by simp
      have "length ?r < length pre"
        using Cons length_dropWhile_le [of isWordChar cs] by simp
      with "1.IH" b have ih: "dropVocabulary (?r @ s) = dropVocabulary ?r @ dropVocabulary s"
        by blast
      have l: "dropVocabulary ((c # cs) @ s) =
          (if c # takeWhile isWordChar cs \<in> set specVocabulary then []
           else c # takeWhile isWordChar cs) @ dropVocabulary (?r @ s)"
        using True by (simp add: Let_def t d)
      have r: "dropVocabulary (c # cs) =
          (if c # takeWhile isWordChar cs \<in> set specVocabulary then []
           else c # takeWhile isWordChar cs) @ dropVocabulary ?r"
        using True by (simp add: Let_def)
      show ?thesis unfolding Cons l r ih by simp
    qed
  qed
qed

lemma cleanCompanyName_between:
  assumes pre: "pre = [] \<or> \<not> isWordChar (last pre)"
    and post: "post = [] \<or> \<not> isWordChar (hd post)"
    and u: "u \<noteq> []" "\<forall>x \<in> set u. isWordChar x" "u \<notin> set specVocabulary"
    and v: "v \<noteq> []" "\<forall>x \<in> set v. isWordChar x" "v \<notin> set specVocabulary"
    and uv: "u @ v \<notin> set specVocabulary"
    and p: "p = CHR '','' \<or> p = CHR ''.''"
  shows "cleanCompanyName (pre @ u @ [p] @ v @ post) = cleanCompanyName (pre @ u @ v @ post)"
proof -
  let ?F = "filter (\<lambda>c. c \<noteq> CHR '','' \<and> c \<noteq> CHR ''.'')"
  have np: "\<not> isWordChar p" using p by (rule punct_not_word)
  have dv: "dropVocabulary (v @ post) = v @ dropVocabulary post"
    using dropVocabulary_run [OF v(1,2) post] v(3) by simp
  have "dropVocabulary (p # v @ post) = p # v @ dropVocabulary post"
    using np dv by simp
  moreover have "dropVocabulary (u @ (p # v @ post)) = u @ dropVocabulary (p # v @ post)"
    using dropVocabulary_run [OF u(1,2), of "p # v @ post"] u(3) np by simp
  ultimately have "dropVocabulary (u @ [p] @ v @ post) = u @ p # v @ dropVocabulary post"
    by simp
  then have l: "dropVocabulary (pre @ u @ [p] @ v @ post) =
      dropVocabulary pre @ u @ p # v @ dropVocabulary post"
    using dropVocabulary_append [OF pre, of "u @ [p] @ v @ post"] by simp
  have uvne: "u @ v \<noteq> []" using u(1) by simp
  have uvw: "\<forall>x \<in> set (u @ v). isWordChar x" using u(2) v(2) by auto
  have "dropVocabulary ((u @ v) @ post) = (u @ v) @ dropVocabulary post"
    using dropVocabulary_run [OF uvne uvw post] uv by simp
  then have r: "dropVocabulary (pre @ u @ v @ post) =
      dropVocabulary pre @ u @ v @ dropVocabulary post"
    using dropVocabulary_append [OF pre, of "u @ v @ post"] by simp
  have "?F (dropVocabulary pre @ u @ p # v @ dropVocabulary post) =
      ?F (dropVocabulary pre @ u @ v @ dropVocabulary post)"
    using p by auto
  then show ?thesis
    by (simp only: cleanCompanyName_specClean specClean_def l r)
qed

text \<open>
  C8, as the code has it. For every name, the cleaning drops each maximal run of word
  characters that is a word of the vocabulary (the vocabulary as whole words), then
  deletes every comma and period and puts nothing in their place, then puts the words
  that white space separates together with one space between them (so runs of white
  space are collapsed and the ends are trimmed). In particular two tokens of word
  characters, neither of them a word of the vocabulary, with a comma or a period
  between them are joined into one token; and wherever two such tokens stand in a
  name, the name cleans as it does without the comma or period between them (when
  the joined token is no word of the vocabulary either).
\<close>

theorem cleanCompanyName_deletes_punctuation:
  "cleanCompanyName name = specClean name \<and>
   (u \<noteq> [] \<and> v \<noteq> [] \<and> (\<forall>x \<in> set u. isWordChar x) \<and> (\<forall>x \<in> set v. isWordChar x) \<and>
    u \<notin> set specVocabulary \<and> v \<notin> set specVocabulary \<and> (p = CHR '','' \<or> p = CHR ''.'')
    \<longrightarrow> cleanCompanyName (u @ [p] @ v) = u @ v \<and>
        ((pre = [] \<or> \<not> isWordChar (last pre)) \<and> (post = [] \<or> \<not> isWordChar (hd post)) \<and>
         u @ v \<notin> set specVocabulary
         \<longrightarrow> cleanCompanyName (pre @ u @ [p] @ v @ post) =
             cleanCompanyName (pre @ u @ v @ post)))"
  using cleanCompanyName_specClean [of name] cleanCompanyName_tokens [of u v p]
    cleanCompanyName_between [of pre post u v p]
  by blast

theorem cleanCompanyName_deletes_punctuation_witness:
  "cleanCompanyName ''a.b'' = ''ab'' \<and>
   cleanCompanyName ''the amazon.com llc'' = cleanCompanyName ''the amazoncom llc'' \<and>
   cleanCompanyName ''the amazon.com llc'' = ''the amazoncom'' \<and>
   cleanCompanyName ''amazon.com  services, llc.'' = ''amazoncom'' \<and>
   cleanCompanyName '' first tek, inc. '' = ''first tek'' \<and>
   cleanCompanyName ''incorporated co.op'' = ''incorporated op''"
proof -
  have a: "(\<forall>x \<in> set ''a''. isWordChar x) \<and> (\<forall>x \<in> set ''b''. isWordChar x)"
    by (simp add: isWordChar_def)
  have b: "''a'' \<notin> set specVocabulary \<and> ''b'' \<notin> set specVocabulary"
    by (simp add: specVocabulary_def)
  have "cleanCompanyName (''a'' @ [CHR ''.''] @ ''b'') = ''a'' @ ''b''"
    using a b
      cleanCompanyName_deletes_punctuation [of "''a.b''" "''a''" "''b''" "CHR ''.''" "[]" "[]",
        THEN conjunct2]
    by simp
  then have ab: "cleanCompanyName ''a.b'' = ''ab''" by simp
  have c: "(\<forall>x \<in> set ''amazon''. isWordChar x) \<and> (\<forall>x \<in> set ''com''. isWordChar x)"
    by (simp add: isWordChar_def)
  have d: "''amazon'' \<notin> set specVocabulary \<and> ''com'' \<notin> set specVocabulary \<and>
      ''amazon'' @ ''com'' \<notin> set specVocabulary"
    by (simp add: specVocabulary_def)
  have e: "\<not> isWordChar (last ''the '') \<and> \<not> isWordChar (hd '' llc'')"
    by (simp add: isWordChar_def)
  have "cleanCompanyName (''the '' @ ''amazon'' @ [CHR ''.''] @ ''com'' @ '' llc'') =
      cleanCompanyName (''the '' @ ''amazon'' @ ''com'' @ '' llc'')"
    using c d e
      cleanCompanyName_deletes_punctuation [of "''a.b''" "''amazon''" "''com''" "CHR ''.''"
        "''the ''" "'' llc''", THEN conjunct2]
    by simp
  then have ctx: "cleanCompanyName ''the amazon.com llc'' = cleanCompanyName ''the amazoncom llc''"
    by simp
  have s0: "specClean ''the amazon.com llc'' = ''the amazoncom''" by code_simp
  have s1: "specClean ''amazon.com  services, llc.'' = ''amazoncom''" by code_simp
  have s2: "specClean '' first tek, inc. '' = ''first tek''" by code_simp
  have s3: "specClean ''incorporated co.op'' = ''incorporated op''" by code_simp
  note eq = cleanCompanyName_deletes_punctuation [of _ "[]" "[]" "CHR ''.''" "[]" "[]",
      THEN conjunct1]
  have c0: "cleanCompanyName ''the amazon.com llc'' = ''the amazoncom''"
    using s0 eq [of "''the amazon.com llc''"] by simp
  have c1: "cleanCompanyName ''amazon.com  services, llc.'' = ''amazoncom''"
    using s1 eq [of "''amazon.com  services, llc.''"] by simp
  have c2: "cleanCompanyName '' first tek, inc. '' = ''first tek''"
    using s2 eq [of "'' first tek, inc. ''"] by simp
  have c3: "cleanCompanyName ''incorporated co.op'' = ''incorporated op''"
    using s3 eq [of "''incorporated co.op''"] by simp
  from ab ctx c0 c1 c2 c3 show ?thesis by (intro conjI)
qed

text \<open>
  The claim as the specification words it fails on the name "a.b": the period is not
  turned into a space, and the two letters end up in one token.
\<close>

theorem cleanCompanyName_joins_tokens_counterexample:
  "cleanCompanyName ''a.b'' = ''ab'' \<and> cleanCompanyName ''a.b'' \<noteq> ''a b''"
  by code_simp

section \<open>Inserting jobs\<close>

lemma insertRows_counts:
  assumes "\<forall>n. rowError n = None"
    and "insertRows rowError md5 k js tbl i d = (tbl', i', d')"
  shows "i' = i + card (generateJobHash md5 ` set js - set (map fst tbl)) \<and>
     i' + d' = i + d + length js \<and>
     set (map fst tbl') = set (map fst tbl) \<union> generateJobHash md5 ` set js"
  using assms(2)
proof (induction js arbitrary: k tbl i d)
  case Nil
  then show ?case by simp
next
  case (Cons j js)
  let ?h = "generateJobHash md5 j"
  let ?K = "set (map fst tbl)"
  let ?H = "generateJobHash md5 ` set js"
  have ok: "rowError k = None" using assms(1) by simp
  show ?case
  proof (cases "?h \<in> ?K")
    case True
    with Cons.prems ok have "insertRows rowError md5 (k + 1) js tbl i (d + 1) = (tbl', i', d')"
      by (simp add: Let_def)
    from Cons.IH [OF this] True show ?thesis
      by (auto simp: insert_Diff_if)
  next
    case False
    let ?tbl = "tbl @ [(?h, j)]"
    from False Cons.prems ok
    have "insertRows rowError md5 (k + 1) js ?tbl (i + 1) d = (tbl', i', d')"
      by (simp add: Let_def)
    from Cons.IH [OF this]
    have ih: "i' = i + 1 + card (?H - set (map fst ?tbl))"
      "i' + d' = i + 1 + d + length js"
      "set (map fst tbl') = set (map fst ?tbl) \<union> ?H"
      by auto
    have fin: "finite (?H - insert ?h ?K)" by simp
    have "insert ?h ?H - ?K = insert ?h (?H - insert ?h ?K)"
      using False by auto
    moreover have "?h \<notin> ?H - insert ?h ?K" by simp
    ultimately have "card (insert ?h ?H - ?K) = Suc (card (?H - insert ?h ?K))"
      using fin by (metis card_insert_disjoint)
    with ih show ?thesis by auto
  qed
qed

lemma insertRows_present:
  assumes "\<forall>n. rowError n = None"
    and "generateJobHash md5 ` set js \<subseteq> set (map fst tbl)"
  shows "insertRows rowError md5 k js tbl i d = (tbl, i, d + length js)"
  using assms by (induction js arbitrary: k d) (auto simp: Let_def)

text \<open>
  C6. Inserting a batch is idempotent: once a call of \<open>insertJobs\<close> on a batch has
  succeeded with no row failing, a second call on the same batch, in which no row
  fails and the commit succeeds, inserts nothing, counts every record of the batch as
  a duplicate, and leaves the table as it is.
\<close>

theorem insertJobs_idempotent:
  assumes "insertJobs e md5 w jobs = (Inr r, w1)"
    and "\<forall>n. jobRowError e n = None"
    and "\<forall>n. jobRowError e' n = None"
    and "jobsCommit e' = None"
  shows "insertJobs e' md5 w1 jobs = (Inr (0, length jobs), w1)"
proof (cases "jobs = []")
  case True
  with assms(1) show ?thesis by (simp add: insertJobs_def)
next
  case False
  obtain tbl i d where rows: "insertRows (jobRowError e) md5 0 jobs (jobs_table w) 0 0 = (tbl, i, d)"
    by (metis prod_cases3)
  with False assms(1) have w1: "w1 = w\<lparr>jobs_table := tbl\<rparr>"
    by (auto simp: insertJobs_def split: option.splits)
  from insertRows_counts [OF assms(2) rows]
  have "generateJobHash md5 ` set jobs \<subseteq> set (map fst tbl)" by auto
  with assms(3) have "insertRows (jobRowError e') md5 0 jobs tbl 0 0 = (tbl, 0, 0 + length jobs)"
    by (rule insertRows_present)
  with False assms(4) w1 show ?thesis
    by (simp add: insertJobs_def)
qed

theorem insertJobs_idempotent_witness:
  "insertJobs exampleEnv rev emptyWorld [jobA, jobB, jobA2] =
     (Inr (2, 1), emptyWorld\<lparr>jobs_table := [(generateJobHash rev jobA, jobA),
                                            (generateJobHash rev jobB, jobB)]\<rparr>) \<and>
   insertJobs exampleEnv rev
     (emptyWorld\<lparr>jobs_table := [(generateJobHash rev jobA, jobA),
                                (generateJobHash rev jobB, jobB)]\<rparr>) [jobA, jobB, jobA2] =
     (Inr (0, 3), emptyWorld\<lparr>jobs_table := [(generateJobHash rev jobA, jobA),
                                            (generateJobHash rev jobB, jobB)]\<rparr>)"
proof -
  have first: "insertJobs exampleEnv rev emptyWorld [jobA, jobB, jobA2] =
     (Inr (2, 1), emptyWorld\<lparr>jobs_table := [(generateJobHash rev jobA, jobA),
                                            (generateJobHash rev jobB, jobB)]\<rparr>)"
    by (simp add: insertJobs_def exampleEnv_def emptyWorld_def generateJobHash_def
        hashString_def jobA_def jobA2_def jobB_def Let_def)
  have rows: "\<forall>n. jobRowError exampleEnv n = None" by (simp add: exampleEnv_def)
  have commit: "jobsCommit exampleEnv = None" by (simp add: exampleEnv_def)
  from insertJobs_idempotent [OF first rows rows commit] first show ?thesis by simp
qed

text \<open>
  C7. The counts do not depend on the order of the batch: on every table, when no row
  fails, a permutation of a batch gives the same result (the same pair of inserted and
  duplicated, or the same error of the commit) as the batch.
\<close>

theorem insertJobs_order_independent:
  assumes "mset jobs' = mset jobs"
    and "\<forall>n. jobRowError e n = None"
  shows "fst (insertJobs e md5 w jobs') = fst (insertJobs e md5 w jobs)"
proof -
  have s: "set jobs' = set jobs" using assms(1) by (metis set_mset_mset)
  have l: "length jobs' = length jobs" using assms(1) by (metis size_mset)
  then have n: "jobs' = [] \<longleftrightarrow> jobs = []" by auto
  obtain tbl i d where r: "insertRows (jobRowError e) md5 0 jobs (jobs_table w) 0 0 = (tbl, i, d)"
    by (metis prod_cases3)
  obtain tbl' i' d' where
    r': "insertRows (jobRowError e) md5 0 jobs' (jobs_table w) 0 0 = (tbl', i', d')"
    by (metis prod_cases3)
  from insertRows_counts [OF assms(2) r] insertRows_counts [OF assms(2) r'] s l
  have "i' = i" and "d' = d" by auto
  with r r' n show ?thesis
    by (auto simp: insertJobs_def split: option.splits)
qed

theorem insertJobs_order_independent_witness:
  "mset [jobA2, jobB, jobA] = mset [jobA, jobB, jobA2] \<and>
   fst (insertJobs exampleEnv rev emptyWorld [jobA, jobB, jobA2]) = Inr (2, 1) \<and>
   fst (insertJobs exampleEnv rev emptyWorld [jobA2, jobB, jobA]) = Inr (2, 1)"
proof -
  have perm: "mset [jobA2, jobB, jobA] = mset [jobA, jobB, jobA2]" by simp
  have rows: "\<forall>n. jobRowError exampleEnv n = None" by (simp add: exampleEnv_def)
  have orig: "fst (insertJobs exampleEnv rev emptyWorld [jobA, jobB, jobA2]) = Inr (2, 1)"
    by (simp add: insertJobs_def exampleEnv_def emptyWorld_def generateJobHash_def
        hashString_def jobA_def jobA2_def jobB_def Let_def)
  from insertJobs_order_independent [OF perm rows, of rev emptyWorld] perm orig
  show ?thesis by simp
qed

section \<open>The pages of a run\<close>

lemma filterPage_result:
  "filterPage e js sc allJobs = (sc', allJobs') \<Longrightarrow>
     length allJobs' = length allJobs +
       length (filter (\<lambda>j. isH1BCompany (h1bCompanies sc) (raw_company_name j)) js) \<and>
     sc' = sc\<lparr>stats := (stats sc)\<lparr>jobsFiltered := jobsFiltered (stats sc) +
       length (filter (\<lambda>j. isH1BCompany (h1bCompanies sc) (raw_company_name j)) js)\<rparr>\<rparr>"
proof (induction js arbitrary: sc allJobs)
  case Nil
  then show ?case by simp
next
  case (Cons j js)
  show ?case
  proof (cases "isH1BCompany (h1bCompanies sc) (raw_company_name j)")
    case True
    with Cons.prems Cons.IH [of "sc\<lparr>stats := (stats sc)\<lparr>jobsFiltered := jobsFiltered (stats sc) + 1\<rparr>\<rparr>"
        "allJobs @ [buildJob (clock e (length allJobs)) j]"]
    show ?thesis by simp
  next
    case False
    with Cons.prems Cons.IH [of sc allJobs] show ?thesis by simp
  qed
qed

lemma fetchPages_fail:
  assumes "fetchPage e startIndex = Inl err"
  shows "fetchPages e (Suc n) startIndex sc w allJobs =
     (Inl err, markError err sc, w\<lparr>fetchCalls := fetchCalls w @ [startIndex]\<rparr>)"
  using assms by (simp add: fetchJobs_def Let_def)

lemma fetchPages_stop:
  assumes "fetchPage e startIndex = Inr r"
    and "jobs_results r = None \<or> jobs_results r = Some []"
  shows "fetchPages e (Suc n) startIndex sc w allJobs =
     (Inr allJobs, sc\<lparr>stats := (stats sc)\<lparr>apiCallsMade := apiCallsMade (stats sc) + 1\<rparr>\<rparr>,
      w\<lparr>fetchCalls := fetchCalls w @ [startIndex]\<rparr>)"
  using assms by (auto simp: fetchJobs_def Let_def)

lemma fetchPages_page:
  assumes "fetchPage e startIndex = Inr r"
    and "jobs_results r = Some items"
    and "items \<noteq> []"
    and "filterPage e items
           (sc\<lparr>stats := (stats sc)\<lparr>apiCallsMade := apiCallsMade (stats sc) + 1,
                                   jobsScraped := jobsScraped (stats sc) + length items\<rparr>\<rparr>)
           allJobs = (sc3, allJobs')"
  shows "fetchPages e (Suc n) startIndex sc w allJobs =
     fetchPages e n (startIndex + 10) sc3 (w\<lparr>fetchCalls := fetchCalls w @ [startIndex]\<rparr>) allJobs'"
proof -
  obtain j js where items: "items = j # js"
    using assms(3) by (cases items) auto
  show ?thesis
    apply (subst fetchPages.simps(2))
    using assms(1,2,4) unfolding items
    by (simp add: fetchJobs_def Let_def del: fetchPages.simps filterPage.simps)
qed

text \<open>
  C4. When the first page (start index 0) has ten items, three of them of companies
  that \<open>isH1BCompany\<close> accepts, and the second page (start index 10) has none, then
  \<open>processJobs\<close> stops after the second call: it returns three records, with
  \<open>jobsScraped\<close> 10, \<open>jobsFiltered\<close> 3 and \<open>apiCallsMade\<close> 2, and has called the
  search service at the start indices 0 and 10 only.
\<close>

theorem processJobs_two_pages:
  assumes "fetchPage e 0 = Inr r1"
    and "jobs_results r1 = Some items"
    and "length items = 10"
    and "length (filter (\<lambda>j. isH1BCompany (h1bCompanies sc) (raw_company_name j)) items) = 3"
    and "fetchPage e 10 = Inr r2"
    and "jobs_results r2 = None \<or> jobs_results r2 = Some []"
  shows "\<exists>jobs sc' w'. processJobs e (sc\<lparr>stats := initialStats\<rparr>) w = (Inr jobs, sc', w') \<and>
     length jobs = 3 \<and> jobsScraped (stats sc') = 10 \<and> jobsFiltered (stats sc') = 3 \<and>
     apiCallsMade (stats sc') = 2 \<and> fetchCalls w' = fetchCalls w @ [0, 10]"
proof -
  let ?sc0 = "sc\<lparr>stats := initialStats\<rparr>"
  let ?sc1 = "?sc0\<lparr>stats := (stats ?sc0)\<lparr>apiCallsMade := apiCallsMade (stats ?sc0) + 1,
                                   jobsScraped := jobsScraped (stats ?sc0) + length items\<rparr>\<rparr>"
  let ?w1 = "w\<lparr>fetchCalls := fetchCalls w @ [0]\<rparr>"
  have ne: "items \<noteq> []" using assms(3) by auto
  obtain sc3 allJobs where fp: "filterPage e items ?sc1 [] = (sc3, allJobs)"
    by (metis prod.exhaust)
  from filterPage_result [OF fp] assms(3,4)
  have len: "length allJobs = 3"
    and sc3: "stats sc3 = initialStats\<lparr>apiCallsMade := 1, jobsScraped := 10, jobsFiltered := 3\<rparr>"
    by (simp_all add: initialStats_def)
  have first: "fetchPages e (Suc (Suc (Suc 0))) 0 ?sc0 w [] =
      fetchPages e (Suc (Suc 0)) (0 + 10) sc3 ?w1 allJobs"
    using assms(1,2) ne fp by (rule fetchPages_page)
  have second: "fetchPages e (Suc (Suc 0)) (0 + 10) sc3 ?w1 allJobs =
      (Inr allJobs, sc3\<lparr>stats := (stats sc3)\<lparr>apiCallsMade := apiCallsMade (stats sc3) + 1\<rparr>\<rparr>,
       ?w1\<lparr>fetchCalls := fetchCalls ?w1 @ [0 + 10]\<rparr>)"
    using assms(5,6) by (intro fetchPages_stop) simp_all
  show ?thesis
    unfolding processJobs_def maxPages_def numeral_3_eq_3 first second
    using len sc3 by (simp add: initialStats_def)
qed

theorem processJobs_two_pages_witness:
  "length examplePage = 10 \<and>
   length (filter (\<lambda>j. isH1BCompany (h1bCompanies exampleScraper) (raw_company_name j)) examplePage) = 3 \<and>
   (\<exists>jobs sc' w'. processJobs exampleEnv (exampleScraper\<lparr>stats := initialStats\<rparr>) emptyWorld = (Inr jobs, sc', w') \<and>
     length jobs = 3 \<and> jobsScraped (stats sc') = 10 \<and> jobsFiltered (stats sc') = 3 \<and>
     apiCallsMade (stats sc') = 2 \<and> fetchCalls w' = fetchCalls emptyWorld @ [0, 10])"
proof -
  have a: "fetchPage exampleEnv 0 = Inr \<lparr>jobs_results = Some examplePage\<rparr>"
    by (simp add: exampleEnv_def)
  have b: "jobs_results \<lparr>jobs_results = Some examplePage\<rparr> = Some examplePage" by simp
  have c: "length examplePage = 10" by (simp add: examplePage_def)
  have d: "length (filter (\<lambda>j. isH1BCompany (h1bCompanies exampleScraper) (raw_company_name j)) examplePage) = 3"
    by code_simp
  have f: "fetchPage exampleEnv 10 = Inr \<lparr>jobs_results = Some []\<rparr>"
    by (simp add: exampleEnv_def)
  have g: "jobs_results \<lparr>jobs_results = Some []\<rparr> = None \<or> jobs_results \<lparr>jobs_results = Some []\<rparr> = Some []"
    by simp
  from processJobs_two_pages [OF a b c d f g, of emptyWorld] c d show ?thesis by blast
qed

section \<open>Counting the calls\<close>

lemma fetchPages_calls:
  "fetchPages e n startIndex sc w allJobs = (r, sc', w') \<Longrightarrow>
     \<exists>new. fetchCalls w' = fetchCalls w @ new \<and>
       apiCallsMade (stats sc') =
         apiCallsMade (stats sc) + length (filter (\<lambda>i. \<not> isl (fetchPage e i)) new) \<and>
       length new =
         length (filter (\<lambda>i. \<not> isl (fetchPage e i)) new) + (if isl r then 1 else 0) \<and>
       jobs_table w' = jobs_table w \<and> logs_table w' = logs_table w \<and>
       logAttempts w' = logAttempts w"
proof (induction n arbitrary: startIndex sc w allJobs)
  case 0
  then show ?case by auto
next
  case (Suc n)
  let ?w1 = "w\<lparr>fetchCalls := fetchCalls w @ [startIndex]\<rparr>"
  show ?case
  proof (cases "fetchPage e startIndex")
    case (Inl err)
    from Suc.prems fetchPages_fail [OF Inl, of n sc w allJobs]
    have "r = Inl err" "sc' = markError err sc" "w' = ?w1" by simp_all
    with Inl have "fetchCalls w' = fetchCalls w @ [startIndex] \<and>
       apiCallsMade (stats sc') =
         apiCallsMade (stats sc) + length (filter (\<lambda>i. \<not> isl (fetchPage e i)) [startIndex]) \<and>
       length [startIndex] =
         length (filter (\<lambda>i. \<not> isl (fetchPage e i)) [startIndex]) + (if isl r then 1 else 0) \<and>
       jobs_table w' = jobs_table w \<and> logs_table w' = logs_table w \<and>
       logAttempts w' = logAttempts w"
      by (simp add: markError_def)
    then show ?thesis by blast
  next
    case (Inr data)
    show ?thesis
    proof (cases "jobs_results data = None \<or> jobs_results data = Some []")
      case True
      from Suc.prems fetchPages_stop [OF Inr True, of n sc w allJobs]
      have "r = Inr allJobs"
        "sc' = sc\<lparr>stats := (stats sc)\<lparr>apiCallsMade := apiCallsMade (stats sc) + 1\<rparr>\<rparr>"
        "w' = ?w1" by simp_all
      with Inr have "fetchCalls w' = fetchCalls w @ [startIndex] \<and>
         apiCallsMade (stats sc') =
           apiCallsMade (stats sc) + length (filter (\<lambda>i. \<not> isl (fetchPage e i)) [startIndex]) \<and>
         length [startIndex] =
           length (filter (\<lambda>i. \<not> isl (fetchPage e i)) [startIndex]) + (if isl r then 1 else 0) \<and>
         jobs_table w' = jobs_table w \<and> logs_table w' = logs_table w \<and>
         logAttempts w' = logAttempts w"
        by simp
      then show ?thesis by blast
    next
      case False
      then obtain items where items: "jobs_results data = Some items" "items \<noteq> []"
        by (cases "jobs_results data") auto
      let ?sc1 = "sc\<lparr>stats := (stats sc)\<lparr>apiCallsMade := apiCallsMade (stats sc) + 1,
                                   jobsScraped := jobsScraped (stats sc) + length items\<rparr>\<rparr>"
      obtain sc3 allJobs' where fp: "filterPage e items ?sc1 allJobs = (sc3, allJobs')"
        by (metis prod.exhaust)
      from filterPage_result [OF fp]
      have api3: "apiCallsMade (stats sc3) = apiCallsMade (stats sc) + 1" by simp
      from Suc.prems fetchPages_page [OF Inr items fp, of n w]
      have "fetchPages e n (startIndex + 10) sc3 ?w1 allJobs' = (r, sc', w')" by simp
      from Suc.IH [OF this] obtain new where new:
        "fetchCalls w' = fetchCalls ?w1 @ new"
        "apiCallsMade (stats sc') =
           apiCallsMade (stats sc3) + length (filter (\<lambda>i. \<not> isl (fetchPage e i)) new)"
        "length new =
           length (filter (\<lambda>i. \<not> isl (fetchPage e i)) new) + (if isl r then 1 else 0)"
        "jobs_table w' = jobs_table ?w1" "logs_table w' = logs_table ?w1"
        "logAttempts w' = logAttempts ?w1"
        by blast
      with Inr api3 have "fetchCalls w' = fetchCalls w @ (startIndex # new) \<and>
         apiCallsMade (stats sc') =
           apiCallsMade (stats sc) + length (filter (\<lambda>i. \<not> isl (fetchPage e i)) (startIndex # new)) \<and>
         length (startIndex # new) =
           length (filter (\<lambda>i. \<not> isl (fetchPage e i)) (startIndex # new)) + (if isl r then 1 else 0) \<and>
         jobs_table w' = jobs_table w \<and> logs_table w' = logs_table w \<and>
         logAttempts w' = logAttempts w"
        by simp
      then show ?thesis by blast
    qed
  qed
qed

lemma saveJobs_frame:
  "saveJobs e md5 sc w jobs = (r, sc', w') \<Longrightarrow>
     apiCallsMade (stats sc') = apiCallsMade (stats sc) \<and> fetchCalls w' = fetchCalls w \<and>
     logs_table w' = logs_table w \<and> logAttempts w' = logAttempts w \<and>
     jobsFiltered (stats sc') = jobsFiltered (stats sc)"
  by (auto simp: saveJobs_def insertJobs_def markError_def Let_def
           split: if_splits prod.splits option.splits sum.splits)

lemma logScrapingRun_frame:
  "logScrapingRun e s w = (r, w') \<Longrightarrow> fetchCalls w' = fetchCalls w \<and> jobs_table w' = jobs_table w"
  by (auto simp: logScrapingRun_def Let_def split: option.splits)

lemma failRun_frame:
  "failRun e err sc w = (r, sc', w') \<Longrightarrow>
     apiCallsMade (stats sc') = apiCallsMade (stats sc) \<and> fetchCalls w' = fetchCalls w"
  by (auto simp: failRun_def markError_def Let_def logScrapingRun_def split: prod.splits sum.splits option.splits)

lemma processJobs_calls:
  assumes "processJobs e sc w = (r, sc', w')"
  shows "\<exists>new. fetchCalls w' = fetchCalls w @ new \<and>
       apiCallsMade (stats sc') =
         apiCallsMade (stats sc) + length (filter (\<lambda>i. \<not> isl (fetchPage e i)) new) \<and>
       length new =
         length (filter (\<lambda>i. \<not> isl (fetchPage e i)) new) + (if isl r then 1 else 0) \<and>
       logAttempts w' = logAttempts w"
proof -
  obtain r0 sc0 w0 where fp: "fetchPages e maxPages 0 sc w [] = (r0, sc0, w0)"
    by (metis prod_cases3)
  from assms fp have "r = r0" "w' = w0" "apiCallsMade (stats sc') = apiCallsMade (stats sc0)"
    by (auto simp: processJobs_def markError_def split: sum.splits)
  with fetchPages_calls [OF fp] show ?thesis by auto
qed

text \<open>
  C2, as the code has it. \<open>apiCallsMade\<close> is incremented once for each call to the search
  service that returns; a call that fails leaves it as it is. So after a run the
  counter is the number of calls that succeeded, and a run that a failed call has
  ended has made one call more than the counter says.
\<close>

theorem apiCallsMade_counts_successful_calls:
  assumes "scrapeJobs e md5 sc w = (r, sc', w')"
  shows "\<exists>new. fetchCalls w' = fetchCalls w @ new \<and>
     apiCallsMade (stats sc') = length (filter (\<lambda>i. \<not> isl (fetchPage e i)) new) \<and>
     length new = apiCallsMade (stats sc') +
       (if isl (fst (processJobs e (sc\<lparr>stats := initialStats\<rparr>) w)) then 1 else 0)"
proof -
  let ?sc0 = "sc\<lparr>stats := initialStats\<rparr>"
  obtain pr sc1 w1 where pj: "processJobs e ?sc0 w = (pr, sc1, w1)"
    by (metis prod_cases3)
  from processJobs_calls [OF pj] obtain new where new:
    "fetchCalls w1 = fetchCalls w @ new"
    "apiCallsMade (stats sc1) = length (filter (\<lambda>i. \<not> isl (fetchPage e i)) new)"
    "length new = length (filter (\<lambda>i. \<not> isl (fetchPage e i)) new) + (if isl pr then 1 else 0)"
    by (auto simp: initialStats_def)
  have "apiCallsMade (stats sc') = apiCallsMade (stats sc1) \<and> fetchCalls w' = fetchCalls w1"
  proof (cases pr)
    case (Inl err)
    with pj assms have "failRun e err sc1 w1 = (r, sc', w')"
      by (simp add: scrapeJobs_def tryRun_def Let_def)
    then show ?thesis using failRun_frame by blast
  next
    case (Inr jobs)
    obtain sr sc2 w2 where sj: "saveJobs e md5 sc1 w1 jobs = (sr, sc2, w2)"
      by (metis prod_cases3)
    note f2 = saveJobs_frame [OF sj]
    show ?thesis
    proof (cases sr)
      case (Inl err)
      with pj Inr sj assms have "failRun e err sc2 w2 = (r, sc', w')"
        by (simp add: scrapeJobs_def tryRun_def Let_def)
      with f2 show ?thesis using failRun_frame by metis
    next
      case (Inr u)
      obtain lr w3 where lg: "logScrapingRun e (stats sc2) w2 = (lr, w3)"
        by (metis prod.exhaust)
      note f3 = logScrapingRun_frame [OF lg]
      show ?thesis
      proof (cases lr)
        case (Inl err)
        with pj \<open>pr = Inr jobs\<close> sj Inr lg assms have "failRun e err sc2 w3 = (r, sc', w')"
          by (simp add: scrapeJobs_def tryRun_def Let_def)
        with f2 f3 show ?thesis using failRun_frame by metis
      next
        case (Inr k)
        with pj \<open>pr = Inr jobs\<close> sj \<open>sr = Inr u\<close> lg assms have "sc' = sc2" "w' = w3"
          by (simp_all add: scrapeJobs_def tryRun_def Let_def)
        with f2 f3 show ?thesis by simp
      qed
    qed
  qed
  with new pj show ?thesis by auto
qed

theorem apiCallsMade_counts_successful_calls_witness:
  "scrapeJobs fetchFailEnv rev exampleScraper emptyWorld =
     (Inl (Error ''Request failed with status code 429''),
      exampleScraper\<lparr>stats := initialStats\<lparr>status := ''error'',
         errorMessage := Some ''Request failed with status code 429''\<rparr>\<rparr>,
      emptyWorld\<lparr>fetchCalls := [0], logAttempts := 1,
         logs_table := [logRow (initialStats\<lparr>status := ''error'',
           errorMessage := Some ''Request failed with status code 429''\<rparr>)]\<rparr>) \<and>
   (\<exists>new. [0] = [] @ new \<and>
      (0::nat) = length (filter (\<lambda>i. \<not> isl (fetchPage fetchFailEnv i)) new) \<and>
      length new = 0 + (if isl (fst (processJobs fetchFailEnv (exampleScraper\<lparr>stats := initialStats\<rparr>) emptyWorld)) then 1 else 0))"
proof -
  have run: "scrapeJobs fetchFailEnv rev exampleScraper emptyWorld =
     (Inl (Error ''Request failed with status code 429''),
      exampleScraper\<lparr>stats := initialStats\<lparr>status := ''error'',
         errorMessage := Some ''Request failed with status code 429''\<rparr>\<rparr>,
      emptyWorld\<lparr>fetchCalls := [0], logAttempts := 1,
         logs_table := [logRow (initialStats\<lparr>status := ''error'',
           errorMessage := Some ''Request failed with status code 429''\<rparr>)]\<rparr>)"
    by (simp add: scrapeJobs_def tryRun_def processJobs_def maxPages_def numeral_3_eq_3
        fetchJobs_def failRun_def logScrapingRun_def markError_def fetchFailEnv_def
        exampleEnv_def exampleScraper_def emptyWorld_def initialStats_def Let_def)
  from apiCallsMade_counts_successful_calls [OF run] run show ?thesis
    by (simp add: emptyWorld_def initialStats_def exampleScraper_def)
qed

text \<open>
  The claim as the specification words it fails on a run whose first call fails: one
  call has been made, and the counter is 0.
\<close>

theorem apiCallsMade_failed_call_counterexample:
  "fetchCalls (snd (snd (scrapeJobs fetchFailEnv rev exampleScraper emptyWorld))) = [0] \<and>
   apiCallsMade (stats (fst (snd (scrapeJobs fetchFailEnv rev exampleScraper emptyWorld)))) = 0"
  by (simp add: scrapeJobs_def tryRun_def processJobs_def maxPages_def numeral_3_eq_3
      fetchJobs_def failRun_def logScrapingRun_def markError_def fetchFailEnv_def
      exampleEnv_def exampleScraper_def emptyWorld_def initialStats_def Let_def)

section \<open>The error a failed run throws\<close>

text \<open>
  C3. When a run fails and the statistics have been marked with status error, the
  caller should get the error that made the run fail, also when the write of the log
  in the handler fails. The code does not do that: the handler awaits the write of the
  log before it throws the first error again, and nothing catches the error of that
  write. On the surroundings in which every call to the search service fails and every
  write of the log fails, the \<open>try\<close> block fails with the error of the search service,
  the statistics record the message of that error, and the caller gets the error of
  the write of the log.
\<close>

theorem scrapeJobs_log_failure_masks_original:
  "fst (tryRun logFailEnv rev exampleScraper emptyWorld) =
     Inl (Error ''Request failed with status code 429'') \<and>
   status (stats (fst (snd (scrapeJobs logFailEnv rev exampleScraper emptyWorld)))) = ''error'' \<and>
   errorMessage (stats (fst (snd (scrapeJobs logFailEnv rev exampleScraper emptyWorld)))) =
     Some ''Request failed with status code 429'' \<and>
   fst (scrapeJobs logFailEnv rev exampleScraper emptyWorld) =
     Inl (Error ''SQLITE_BUSY: database is locked'') \<and>
   fst (scrapeJobs logFailEnv rev exampleScraper emptyWorld) \<noteq>
     Inl (Error ''Request failed with status code 429'')"
  by (simp add: scrapeJobs_def tryRun_def processJobs_def maxPages_def numeral_3_eq_3
      fetchJobs_def failRun_def logScrapingRun_def markError_def logFailEnv_def fetchFailEnv_def
      exampleEnv_def exampleScraper_def emptyWorld_def initialStats_def Let_def)

section \<open>A run without companies\<close>

lemma isH1BCompany_empty: "\<not> isH1BCompany [] name"
  by (simp add: isH1BCompany_def Let_def split: option.splits)

lemma filterPage_empty_set:
  "h1bCompanies sc = [] \<Longrightarrow> filterPage e js sc allJobs = (sc, allJobs)"
  by (induction js) (simp_all add: isH1BCompany_empty)

lemma fetchPages_empty_set:
  "h1bCompanies sc = [] \<Longrightarrow> fetchPages e n startIndex sc w allJobs = (r, sc', w') \<Longrightarrow>
     h1bCompanies sc' = [] \<and> jobsFiltered (stats sc') = jobsFiltered (stats sc) \<and>
     (\<forall>jobs. r = Inr jobs \<longrightarrow> jobs = allJobs)"
proof (induction n arbitrary: startIndex sc w)
  case 0
  then show ?case by auto
next
  case (Suc n)
  show ?case
  proof (cases "fetchPage e startIndex")
    case (Inl err)
    from Suc.prems fetchPages_fail [OF Inl, of n sc w allJobs] show ?thesis
      by (auto simp: markError_def)
  next
    case (Inr data)
    show ?thesis
    proof (cases "jobs_results data = None \<or> jobs_results data = Some []")
      case True
      from Suc.prems fetchPages_stop [OF Inr True, of n sc w allJobs] show ?thesis
        by auto
    next
      case False
      then obtain items where items: "jobs_results data = Some items" "items \<noteq> []"
        by (cases "jobs_results data") auto
      let ?sc1 = "sc\<lparr>stats := (stats sc)\<lparr>apiCallsMade := apiCallsMade (stats sc) + 1,
                                   jobsScraped := jobsScraped (stats sc) + length items\<rparr>\<rparr>"
      have h: "h1bCompanies ?sc1 = []" using Suc.prems(1) by simp
      have fp: "filterPage e items ?sc1 allJobs = (?sc1, allJobs)"
        using h by (rule filterPage_empty_set)
      from Suc.prems(2) fetchPages_page [OF Inr items fp, of n w]
      have "fetchPages e n (startIndex + 10) ?sc1 (w\<lparr>fetchCalls := fetchCalls w @ [startIndex]\<rparr>) allJobs = (r, sc', w')"
        by simp
      from Suc.IH [OF h this] show ?thesis by simp
    qed
  qed
qed

lemma fetchPages_first_call:
  assumes "fetchPages e (Suc n) startIndex sc w allJobs = (r, sc', w')"
  shows "\<exists>rest. fetchCalls w' = fetchCalls w @ startIndex # rest"
proof (cases "fetchPage e startIndex")
  case (Inl err)
  from assms fetchPages_fail [OF Inl, of n sc w allJobs] show ?thesis by auto
next
  case (Inr data)
  show ?thesis
  proof (cases "jobs_results data = None \<or> jobs_results data = Some []")
    case True
    from assms fetchPages_stop [OF Inr True, of n sc w allJobs] show ?thesis by auto
  next
    case False
    then obtain items where items: "jobs_results data = Some items" "items \<noteq> []"
      by (cases "jobs_results data") auto
    let ?sc1 = "sc\<lparr>stats := (stats sc)\<lparr>apiCallsMade := apiCallsMade (stats sc) + 1,
                                 jobsScraped := jobsScraped (stats sc) + length items\<rparr>\<rparr>"
    obtain sc3 allJobs' where fp: "filterPage e items ?sc1 allJobs = (sc3, allJobs')"
      by (metis prod.exhaust)
    from assms fetchPages_page [OF Inr items fp, of n w]
    have "fetchPages e n (startIndex + 10) sc3 (w\<lparr>fetchCalls := fetchCalls w @ [startIndex]\<rparr>) allJobs' = (r, sc', w')"
      by simp
    from fetchPages_calls [OF this] show ?thesis by auto
  qed
qed

lemma failRun_keeps:
  "failRun e err sc w = (r, sc', w') \<Longrightarrow>
     isl r \<and> h1bCompanies sc' = h1bCompanies sc \<and>
     jobsFiltered (stats sc') = jobsFiltered (stats sc) \<and> fetchCalls w' = fetchCalls w"
  by (auto simp: failRun_def markError_def Let_def logScrapingRun_def
           split: prod.splits sum.splits option.splits)

lemma processJobs_empty_set:
  assumes "h1bCompanies sc = []"
    and "processJobs e sc w = (r, sc', w')"
  shows "h1bCompanies sc' = [] \<and> jobsFiltered (stats sc') = jobsFiltered (stats sc) \<and>
     (\<forall>jobs. r = Inr jobs \<longrightarrow> jobs = []) \<and>
     (\<exists>rest. fetchCalls w' = fetchCalls w @ 0 # rest)"
proof -
  obtain r0 sc0 w0 where fp: "fetchPages e (Suc (Suc (Suc 0))) 0 sc w [] = (r0, sc0, w0)"
    by (metis prod_cases3)
  from assms(2) fp have eq: "r = r0" "w' = w0" "h1bCompanies sc' = h1bCompanies sc0"
    "jobsFiltered (stats sc') = jobsFiltered (stats sc0)"
    by (auto simp: processJobs_def maxPages_def numeral_3_eq_3 markError_def split: sum.splits)
  from fetchPages_empty_set [OF assms(1) fp] fetchPages_first_call [OF fp] eq
  show ?thesis by simp
qed

text \<open>
  C1, as the code has it. When the database opens and has no companies, and the file
  of companies is read without error and gives no usable name, the initialization
  succeeds with an empty set, and the run goes on: it calls the search service, no
  posting matches the empty set, \<open>jobsFiltered\<close> stays 0 and a run that succeeds
  returns no records.
\<close>

theorem empty_reference_set_run_proceeds:
  assumes "dbOpen e = None"
    and "dbQuery e = None"
    and "companies_table w = []"
    and "csvRows e = Inr rows"
    and "readRows rows [] = []"
  shows "initialize e newScraper w = Inr (newScraper, w) \<and>
     (\<exists>r sc' w' rest. main e md5 w = Inr (r, sc', w') \<and>
        fetchCalls w' = fetchCalls w @ 0 # rest \<and>
        h1bCompanies sc' = [] \<and> jobsFiltered (stats sc') = 0 \<and>
        (\<forall>jobs. r = Inr jobs \<longrightarrow> jobs = []))"
proof -
  have init: "initialize e newScraper w = Inr (newScraper, w)"
    using assms
    by (simp add: initialize_def loadH1BCompanies_def getH1BCompanies_def newSet_def
        newScraper_def)
  let ?sc0 = "newScraper\<lparr>stats := initialStats\<rparr>"
  have h0: "h1bCompanies ?sc0 = []" by (simp add: newScraper_def)
  obtain pr sc1 w1 where pj: "processJobs e ?sc0 w = (pr, sc1, w1)"
    by (metis prod_cases3)
  from processJobs_empty_set [OF h0 pj] obtain rest where p:
    "h1bCompanies sc1 = []" "jobsFiltered (stats sc1) = 0"
    "\<forall>jobs. pr = Inr jobs \<longrightarrow> jobs = []" "fetchCalls w1 = fetchCalls w @ 0 # rest"
    by (auto simp: initialStats_def)
  obtain r sc' w' where run: "scrapeJobs e md5 newScraper w = (r, sc', w')"
    by (metis prod_cases3)
  have "fetchCalls w' = fetchCalls w1 \<and> h1bCompanies sc' = [] \<and>
      jobsFiltered (stats sc') = 0 \<and> (\<forall>jobs. r = Inr jobs \<longrightarrow> jobs = [])"
  proof (cases pr)
    case (Inl err)
    with pj run have "failRun e err sc1 w1 = (r, sc', w')"
      by (simp add: scrapeJobs_def tryRun_def Let_def)
    from failRun_keeps [OF this] p show ?thesis by auto
  next
    case (Inr jobs)
    with p have jobs: "jobs = []" by simp
    obtain lr w3 where lg: "logScrapingRun e (stats sc1) w1 = (lr, w3)"
      by (metis prod.exhaust)
    note f3 = logScrapingRun_frame [OF lg]
    show ?thesis
    proof (cases lr)
      case (Inl err)
      with pj Inr jobs lg run have "failRun e err sc1 w3 = (r, sc', w')"
        by (simp add: scrapeJobs_def tryRun_def saveJobs_def Let_def)
      from failRun_keeps [OF this] p f3 show ?thesis by auto
    next
      case (Inr k)
      with pj \<open>pr = Inr jobs\<close> jobs lg run have "r = Inr []" "sc' = sc1" "w' = w3"
        by (simp_all add: scrapeJobs_def tryRun_def saveJobs_def Let_def)
      with p f3 show ?thesis by simp
    qed
  qed
  with p(4) init run show ?thesis
    by (simp add: main_def)
qed

theorem empty_reference_set_run_proceeds_witness:
  "readRows [[(''EMPLOYER_NAME'', [])],
             [(''EMPLOYER_NAME'', [CHR 0x22, CHR '' '', CHR '' '', CHR 0x22])]] [] = [] \<and>
   initialize blankFileEnv newScraper emptyWorld = Inr (newScraper, emptyWorld) \<and>
   (\<exists>r sc' w' rest. main blankFileEnv rev emptyWorld = Inr (r, sc', w') \<and>
        fetchCalls w' = 0 # rest \<and>
        h1bCompanies sc' = [] \<and> jobsFiltered (stats sc') = 0 \<and>
        (\<forall>jobs. r = Inr jobs \<longrightarrow> jobs = []))"
proof -
  have a: "dbOpen blankFileEnv = None" by (simp add: blankFileEnv_def exampleEnv_def)
  have b: "dbQuery blankFileEnv = None" by (simp add: blankFileEnv_def exampleEnv_def)
  have c: "companies_table emptyWorld = []" by (simp add: emptyWorld_def)
  have d: "csvRows blankFileEnv =
      Inr [[(''EMPLOYER_NAME'', [])],
           [(''EMPLOYER_NAME'', [CHR 0x22, CHR '' '', CHR '' '', CHR 0x22])]]"
    by (simp add: blankFileEnv_def exampleEnv_def)
  have f: "readRows [[(''EMPLOYER_NAME'', [])],
             [(''EMPLOYER_NAME'', [CHR 0x22, CHR '' '', CHR '' '', CHR 0x22])]] [] = []"
    by code_simp
  from empty_reference_set_run_proceeds [OF a b c d f, of rev] f show ?thesis
    by (simp add: emptyWorld_def)
qed

text \<open>
  The claim as the specification words it fails on the sample surroundings, where no
  company can be loaded: the run does not fail; it fetches both pages, evaluates the
  ten postings and ends with status success and no record.
\<close>

theorem empty_reference_set_counterexample:
  "main exampleEnv rev emptyWorld =
     Inr (Inr [],
          \<lparr> h1bCompanies = [],
            stats = \<lparr> jobsScraped = 10, jobsFiltered = 0, jobsInserted = 0, jobsDuplicated = 0,
                      apiCallsMade = 2, status = ''success'', errorMessage = None \<rparr> \<rparr>,
          \<lparr> jobs_table = [], companies_table = [],
            logs_table = [\<lparr> jobs_scraped = 10, jobs_filtered = 0, jobs_inserted = 0,
                            jobs_duplicated = 0, log_status = ''success'', error_message = None,
                            api_calls_made = 2 \<rparr>],
            fetchCalls = [0, 10], logAttempts = 1 \<rparr>)"
  by code_simp

end
